theory Spec2Isabelle
  imports Complex_Main "HOL-Library.Sublist"
begin

section \<open>JavaScript values used by the device manager\<close>

text \<open>
  Strings are sequences of code units; the model covers the code units U+0000 to U+00FF,
  one \<open>char\<close> each.

  A Number is an IEEE 754 double. The Numbers that \<open>parseInt\<close> produces, and their sums
  and differences, are integers, infinities or NaN: \<open>Num i\<close> stands for the double whose
  value is the integer \<open>i\<close>. Every operation rounds its exact result to the nearest
  double, ties to the even significand, and overflows to an infinity (\<open>toNumber\<close>). The
  two zeros are one value: the code only adds, subtracts, compares and prints these
  Numbers, which never tells \<open>-0\<close> from \<open>0\<close>. A Number that \<open>parseFloat\<close> produces is
  a rational, an infinity or NaN (\<open>toFloat\<close> rounds likewise, with gradual underflow).
  Where the language leaves the rounding of a literal of more than 20 significant digits
  to the engine, the model rounds the exact value.
\<close>

datatype jsnum = Num int | Infinity bool | NaN

datatype jsfloat = FNum rat | FInfinity bool | FNaN

function dropBits :: "int \<Rightarrow> nat" where
  \<comment> \<open>How many low bits an integer has beyond a significand of 53 bits.\<close>
  "dropBits n = (if n < 2 ^ 53 then 0 else Suc (dropBits (n div 2)))"
  by pat_completeness auto
termination
  by (relation "measure nat") auto

declare dropBits.simps [simp del]

definition nearestDouble :: "int \<Rightarrow> int" where
  \<comment> \<open>A non-negative integer rounded to 53 significant bits, ties to even.\<close>
  "nearestDouble n =
    (let e = dropBits n;
         q = n div 2 ^ e;
         r = n mod 2 ^ e
     in if e = 0 then n
        else (if 2 ^ e < 2 * r \<or> (2 * r = 2 ^ e \<and> odd q) then q + 1 else q) * 2 ^ e)"

definition toNumber :: "int \<Rightarrow> jsnum" where
  \<comment> \<open>The Number for an exact integer result.\<close>
  "toNumber i =
    (let m = nearestDouble \<bar>i\<bar>
     in if 2 ^ 1024 \<le> m then Infinity (i < 0)
        else Num (if i < 0 then - m else m))"

fun js_add :: "jsnum \<Rightarrow> jsnum \<Rightarrow> jsnum" where
  "js_add (Num a) (Num b) = toNumber (a + b)"
| "js_add (Num a) (Infinity t) = Infinity t"
| "js_add (Infinity s) (Num b) = Infinity s"
| "js_add (Infinity s) (Infinity t) = (if s = t then Infinity s else NaN)"
| "js_add _ _ = NaN"

fun js_sub :: "jsnum \<Rightarrow> jsnum \<Rightarrow> jsnum" where
  "js_sub (Num a) (Num b) = toNumber (a - b)"
| "js_sub (Num a) (Infinity t) = Infinity (\<not> t)"
| "js_sub (Infinity s) (Num b) = Infinity s"
| "js_sub (Infinity s) (Infinity t) = (if s = t then NaN else Infinity s)"
| "js_sub _ _ = NaN"

text \<open>\<open>a > b\<close> and \<open>a == b\<close> on Numbers: both are false as soon as one side is NaN.
  \<open>Infinity True\<close> is the negative infinity.\<close>

fun js_gt :: "jsnum \<Rightarrow> jsnum \<Rightarrow> bool" where
  "js_gt (Num a) (Num b) = (a > b)"
| "js_gt (Num a) (Infinity t) = t"
| "js_gt (Infinity s) (Num b) = (\<not> s)"
| "js_gt (Infinity s) (Infinity t) = (\<not> s \<and> t)"
| "js_gt _ _ = False"

fun js_eq :: "jsnum \<Rightarrow> jsnum \<Rightarrow> bool" where
  "js_eq (Num a) (Num b) = (a = b)"
| "js_eq (Infinity s) (Infinity t) = (s = t)"
| "js_eq _ _ = False"

function bitLength :: "int \<Rightarrow> nat" where
  "bitLength n = (if n \<le> 0 then 0 else Suc (bitLength (n div 2)))"
  by pat_completeness auto
termination
  by (relation "measure nat") auto

declare bitLength.simps [simp del]

definition pow2 :: "int \<Rightarrow> rat" where
  "pow2 e = (if 0 \<le> e then 2 ^ nat e else 1 / 2 ^ nat (- e))"

definition floorLog2 :: "rat \<Rightarrow> int" where
  \<comment> \<open>For a positive rational, the exponent of the largest power of two below or at it.\<close>
  "floorLog2 x =
    (let (p, q) = quotient_of x;
         d = int (bitLength p) - int (bitLength q)
     in if pow2 d \<le> x then d else d - 1)"

definition nearestDoubleRat :: "rat \<Rightarrow> rat" where
  \<comment> \<open>A non-negative rational rounded to a multiple of the unit in the last place of
      its binade (at least \<open>2^-1074\<close>), ties to even.\<close>
  "nearestDoubleRat x =
    (if x = 0 then 0
     else (let e = max (- 1074) (floorLog2 x - 52);
               m = x / pow2 e;
               q = \<lfloor>m\<rfloor>;
               f = m - of_int q
           in of_int (if 1 / 2 < f \<or> (f = 1 / 2 \<and> odd q) then q + 1 else q) * pow2 e))"

definition toFloat :: "bool \<Rightarrow> rat \<Rightarrow> jsfloat" where
  \<comment> \<open>The Number for the sign and the exact magnitude of a decimal literal.\<close>
  "toFloat neg x =
    (let y = nearestDoubleRat x
     in if pow2 1024 \<le> y then FInfinity neg else FNum (if neg then - y else y))"

subsection \<open>Characters and strings\<close>

definition isWhiteSpace :: "char \<Rightarrow> bool" where
  \<comment> \<open>WhiteSpace and LineTerminator below U+0100: TAB, LF, VT, FF, CR, SP, NBSP.\<close>
  "isWhiteSpace c = (let n = (of_char c :: nat) in (9 \<le> n \<and> n \<le> 13) \<or> n = 32 \<or> n = 160)"

definition isDigit :: "char \<Rightarrow> bool" where
  "isDigit c = (let n = (of_char c :: nat) in 48 \<le> n \<and> n \<le> 57)"

definition isHexDigit :: "char \<Rightarrow> bool" where
  "isHexDigit c = (let n = (of_char c :: nat) in
     (48 \<le> n \<and> n \<le> 57) \<or> (97 \<le> n \<and> n \<le> 102) \<or> (65 \<le> n \<and> n \<le> 70))"

definition digitValue :: "char \<Rightarrow> nat" where
  "digitValue c = (let n = (of_char c :: nat) in
     if 97 \<le> n then n - 87 else if 65 \<le> n then n - 55 else n - 48)"

definition radixValue :: "int \<Rightarrow> string \<Rightarrow> int" where
  \<comment> \<open>The integer a digit string denotes in the given radix, most significant digit first.\<close>
  "radixValue R z = foldl (\<lambda>a c. a * R + int (digitValue c)) 0 z"

definition trimStart :: "string \<Rightarrow> string" where
  "trimStart s = dropWhile isWhiteSpace s"

definition trim :: "string \<Rightarrow> string" where
  \<comment> \<open>\<open>String.prototype.trim\<close>\<close>
  "trim s = rev (dropWhile isWhiteSpace (rev (dropWhile isWhiteSpace s)))"

definition lowerChar :: "char \<Rightarrow> char" where
  "lowerChar c = (let n = (of_char c :: nat) in
     if (65 \<le> n \<and> n \<le> 90) \<or> (192 \<le> n \<and> n \<le> 222 \<and> n \<noteq> 215) then char_of (n + 32) else c)"

definition toLowerCase :: "string \<Rightarrow> string" where
  \<comment> \<open>\<open>String.prototype.toLowerCase\<close>\<close>
  "toLowerCase s = map lowerChar s"

fun js_includes :: "string \<Rightarrow> string \<Rightarrow> bool" where
  \<comment> \<open>\<open>s.includes(t)\<close>: \<open>t\<close> occurs in \<open>s\<close> at some position.\<close>
  "js_includes [] t = (t = [])"
| "js_includes (c # cs) t = (prefix t (c # cs) \<or> js_includes cs t)"

subsection \<open>parseInt and parseFloat\<close>

definition parseInt :: "string \<Rightarrow> jsnum" where
  \<comment> \<open>\<open>parseInt(string)\<close> with no radix argument.\<close>
  "parseInt inputString =
    (let S = trimStart inputString;
         neg = (S \<noteq> [] \<and> hd S = CHR ''-'');
         S1 = (if S \<noteq> [] \<and> (hd S = CHR ''+'' \<or> hd S = CHR ''-'') then tl S else S);
         hex = (take 2 S1 = ''0x'' \<or> take 2 S1 = ''0X'');
         R = (if hex then 16 else 10);
         S2 = (if hex then drop 2 S1 else S1);
         Z = takeWhile (if hex then isHexDigit else isDigit) S2
     in if Z = [] then NaN
        else toNumber ((if neg then - 1 else 1) * radixValue R Z))"

definition exponentPart :: "string \<Rightarrow> int" where
  \<comment> \<open>The value of an ExponentPart at the start of the string, 0 when there is none.\<close>
  "exponentPart s =
    (case s of
       [] \<Rightarrow> 0
     | e # r \<Rightarrow>
         if e = CHR ''e'' \<or> e = CHR ''E'' then
           (let neg = (r \<noteq> [] \<and> hd r = CHR ''-'');
                r1 = (if r \<noteq> [] \<and> (hd r = CHR ''+'' \<or> hd r = CHR ''-'') then tl r else r);
                ds = takeWhile isDigit r1
            in if ds = [] then 0
               else (if neg then - 1 else 1) * radixValue 10 ds)
         else 0)"

definition scale10 :: "rat \<Rightarrow> int \<Rightarrow> rat" where
  "scale10 m e = (if 0 \<le> e then m * 10 ^ nat e else m / 10 ^ nat (- e))"

definition parseFloat :: "string \<Rightarrow> jsfloat" where
  \<comment> \<open>\<open>parseFloat(string)\<close>: the longest prefix that is a StrDecimalLiteral.\<close>
  "parseFloat inputString =
    (let S = trimStart inputString;
         neg = (S \<noteq> [] \<and> hd S = CHR ''-'');
         S1 = (if S \<noteq> [] \<and> (hd S = CHR ''+'' \<or> hd S = CHR ''-'') then tl S else S)
     in if prefix ''Infinity'' S1 then FInfinity neg
        else
          (let ip = takeWhile isDigit S1;
               r1 = dropWhile isDigit S1;
               dot = (r1 \<noteq> [] \<and> hd r1 = CHR ''.'');
               fp = (if dot then takeWhile isDigit (tl r1) else []);
               r2 = (if dot then dropWhile isDigit (tl r1) else r1)
           in if ip = [] \<and> fp = [] then FNaN
              else toFloat neg
                     (scale10 (of_int (radixValue 10 (ip @ fp))) (exponentPart r2 - int (length fp)))))"

definition orDefault :: "string option \<Rightarrow> string \<Rightarrow> string" where
  \<comment> \<open>\<open>v || d\<close> for \<open>v\<close> a string or null: null and the empty string are falsy.\<close>
  "orDefault v d = (case v of None \<Rightarrow> d | Some s \<Rightarrow> if s = [] then d else s)"

section \<open>The parsed XML document\<close>

text \<open>
  \<open>DOMParser.parseFromString\<close> is the browser's; the model starts from the document it
  returns, given by the list of its child nodes. An element has a tag name, its
  attributes and its child nodes.
\<close>

datatype node =
    Element string "(string \<times> string) list" "node list"
  | Text string
  | Comment string

type_synonym document = "node list"

fun tagName :: "node \<Rightarrow> string" where
  "tagName (Element t as cs) = t"
| "tagName (Text s) = []"
| "tagName (Comment s) = []"

fun childNodes :: "node \<Rightarrow> node list" where
  "childNodes (Element t as cs) = cs"
| "childNodes (Text s) = []"
| "childNodes (Comment s) = []"

fun getAttribute :: "node \<Rightarrow> string \<Rightarrow> string option" where
  \<comment> \<open>The attribute's value, or null (\<open>None\<close>) when the element has no such attribute.\<close>
  "getAttribute (Element t as cs) k = map_of as k"
| "getAttribute (Text s) k = None"
| "getAttribute (Comment s) k = None"

fun elements :: "node \<Rightarrow> node list" where
  \<comment> \<open>An element followed by its descendant elements, in document order.\<close>
  "elements (Element t as cs) = Element t as cs # concat (map elements cs)"
| "elements (Text s) = []"
| "elements (Comment s) = []"

definition descendants :: "node list \<Rightarrow> node list" where
  "descendants cs = concat (map elements cs)"

fun textContent :: "node \<Rightarrow> string" where
  \<comment> \<open>The concatenated text of the descendant text nodes; comments contribute nothing.\<close>
  "textContent (Element t as cs) = concat (map textContent cs)"
| "textContent (Text s) = s"
| "textContent (Comment s) = []"

definition querySelectorAll :: "node list \<Rightarrow> string \<Rightarrow> node list" where
  \<comment> \<open>A type selector: all elements below with that tag name, in document order.\<close>
  "querySelectorAll cs sel = filter (\<lambda>e. tagName e = sel) (descendants cs)"

definition querySelector :: "node list \<Rightarrow> string \<Rightarrow> node option" where
  "querySelector cs sel = (case querySelectorAll cs sel of [] \<Rightarrow> None | e # es \<Rightarrow> Some e)"

section \<open>Test reports\<close>

text \<open>
  An optional property of an object is an \<open>option\<close>: \<open>None\<close> when the property was never
  assigned. A value that comes from \<open>getAttribute\<close> is itself a string or null, so
  \<open>tc_message\<close> and \<open>firmware_version\<close> are options of options.
\<close>

record TestCase =
  tc_classname :: "string option"
  tc_name :: "string option"
  tc_time :: jsfloat
  tc_status :: string
  tc_message :: "string option option"
  tc_details :: "string option"

record TestReport =
  tests :: jsnum
  failures :: jsnum
  errors :: jsnum
  skipped :: jsnum
  time :: jsfloat
  timestamp :: "string option"
  testcases :: "TestCase list"
  firmware_version :: "string option option"
  passed :: jsnum

definition parseTestCase :: "node \<Rightarrow> TestCase" where
  \<comment> \<open>The body of the \<open>testcases.forEach\<close> callback of \<open>parseTestReport\<close>.\<close>
  "parseTestCase testcase =
    (let tc = \<lparr> tc_classname = getAttribute testcase ''classname'',
                tc_name = getAttribute testcase ''name'',
                tc_time = parseFloat (orDefault (getAttribute testcase ''time'') ''0''),
                tc_status = ''passed'',
                tc_message = None,
                tc_details = None \<rparr>
     in case querySelector (childNodes testcase) ''failure'' of
          Some failure \<Rightarrow>
            (let failureText = textContent failure;
                 tc1 = tc\<lparr> tc_status := ''failed'',
                           tc_message := Some (getAttribute failure ''message'') \<rparr>
             in if failureText \<noteq> [] then tc1\<lparr> tc_details := Some (trim failureText) \<rparr> else tc1)
        | None \<Rightarrow>
           (case querySelector (childNodes testcase) ''error'' of
              Some error \<Rightarrow>
                (let errorText = textContent error;
                     tc1 = tc\<lparr> tc_status := ''error'',
                               tc_message := Some (getAttribute error ''message'') \<rparr>
                 in if errorText \<noteq> [] then tc1\<lparr> tc_details := Some (trim errorText) \<rparr> else tc1)
            | None \<Rightarrow>
               (case querySelector (childNodes testcase) ''skipped'' of
                  Some skippedEl \<Rightarrow>
                    tc\<lparr> tc_status := ''skipped'',
                        tc_message := Some (getAttribute skippedEl ''message'') \<rparr>
                | None \<Rightarrow> tc)))"

definition findFirmwareVersion :: "node list \<Rightarrow> string option option" where
  \<comment> \<open>The \<open>properties.forEach\<close> loop: every matching property assigns the field.\<close>
  "findFirmwareVersion properties =
     foldl (\<lambda>fv property.
              if getAttribute property ''name'' = Some ''firmware_version''
              then Some (getAttribute property ''value'') else fv)
           None properties"

definition parseTestReport :: "document \<Rightarrow> TestReport option" where
  "parseTestReport xmlDoc =
    (case querySelector xmlDoc ''testsuite'' of
       None \<Rightarrow> None
     | Some testsuite \<Rightarrow>
        (let report = \<lparr> tests = parseInt (orDefault (getAttribute testsuite ''tests'') ''0''),
                        failures = parseInt (orDefault (getAttribute testsuite ''failures'') ''0''),
                        errors = parseInt (orDefault (getAttribute testsuite ''errors'') ''0''),
                        skipped = parseInt (orDefault (getAttribute testsuite ''skipped'') ''0''),
                        time = parseFloat (orDefault (getAttribute testsuite ''time'') ''0''),
                        timestamp = getAttribute testsuite ''timestamp'',
                        testcases = [],
                        firmware_version = None,
                        passed = NaN \<rparr>;
             report1 = report\<lparr> firmware_version :=
                                  findFirmwareVersion (querySelectorAll xmlDoc ''property'') \<rparr>;
             report2 = report1\<lparr> passed :=
                                  js_sub (js_sub (js_sub (tests report1) (failures report1))
                                            (errors report1)) (skipped report1) \<rparr>
         in Some (report2\<lparr> testcases :=
                    foldl (\<lambda>acc testcase. acc @ [parseTestCase testcase])
                          (testcases report2) (querySelectorAll xmlDoc ''testcase'') \<rparr>)))"

section \<open>Devices and the device manager\<close>

text \<open>
  A device is an object of the inventory (\<open>devices.json\<close>) with the report that
  \<open>loadDevices\<close> attaches. \<open>name\<close>, \<open>target\<close>, \<open>proxy\<close> and \<open>status\<close> are optional:
  \<open>None\<close> stands for an absent or null property.
\<close>

record Device =
  device :: string
  name :: "string option"
  version_name :: string
  target :: "string option"
  proxy :: "string option"
  status :: "string option"
  report :: "TestReport option"

record DeviceManager =
  devicesData :: "Device list"
  filteredDevices :: "Device list"
  searchTerm :: string
  filterType :: string

record AggregateStats =
  s_total :: nat
  s_online :: nat
  s_totalTests :: jsnum
  s_passed :: jsnum
  s_failed :: jsnum
  s_skipped :: jsnum

definition updateStats :: "DeviceManager \<Rightarrow> AggregateStats" where
  \<comment> \<open>The \<open>stats\<close> object that \<open>updateStats\<close> builds and then renders.\<close>
  "updateStats m =
    (let stats = \<lparr> s_total = length (devicesData m),
                    s_online = length (filter (\<lambda>d. status d = Some ''online'') (devicesData m)),
                    s_totalTests = Num 0,
                    s_passed = Num 0,
                    s_failed = Num 0,
                    s_skipped = Num 0 \<rparr>
     in foldl (\<lambda>stats device.
                 case report device of
                   Some r \<Rightarrow>
                     stats\<lparr> s_totalTests := js_add (s_totalTests stats) (tests r),
                            s_passed := js_add (s_passed stats) (passed r),
                            s_failed := js_add (s_failed stats) (js_add (failures r) (errors r)),
                            s_skipped := js_add (s_skipped stats) (skipped r) \<rparr>
                 | None \<Rightarrow> stats)
              stats (devicesData m))"

definition matchesSearch :: "Device \<Rightarrow> string \<Rightarrow> bool" where
  "matchesSearch d search =
     (js_includes (toLowerCase (device d)) (toLowerCase search) \<or>
      (case name d of
         None \<Rightarrow> False
       | Some n \<Rightarrow> n \<noteq> [] \<and> js_includes (toLowerCase n) (toLowerCase search)))"

definition matchesFilter :: "Device \<Rightarrow> string \<Rightarrow> bool" where
  "matchesFilter d ftype =
     (ftype = ''all'' \<or>
      (ftype = ''failed'' \<and>
       (case report d of
          None \<Rightarrow> False
        | Some r \<Rightarrow> js_gt (failures r) (Num 0) \<or> js_gt (errors r) (Num 0))))"

definition filterDevices :: "DeviceManager \<Rightarrow> string \<Rightarrow> string \<Rightarrow> DeviceManager" where
  \<comment> \<open>The state after \<open>filterDevices(searchTerm, filterType)\<close>; rendering is left out.\<close>
  "filterDevices m search ftype =
     m\<lparr> searchTerm := search,
        filterType := ftype,
        filteredDevices :=
          filter (\<lambda>d. matchesSearch d search \<and> matchesFilter d ftype) (devicesData m) \<rparr>"

subsection \<open>Loading\<close>

text \<open>
  What the network answers is an input of the model. A \<open>fetch\<close> either rejects or
  resolves to a response with its \<open>ok\<close> flag and a body; reading the body can reject
  too (\<open>None\<close>). The body of a report is given as the document \<open>DOMParser\<close> makes of its
  text. Each task of the \<open>Promise.all\<close> fan-out writes the \<open>report\<close> of its own device
  only, so the tasks are modelled as a map over the inventory, task \<open>i\<close> with answer
  \<open>reports i\<close>.
\<close>

datatype report_fetch = ReportRejected | ReportResponse bool "document option"

datatype inventory_fetch = InventoryRejected | InventoryResponse bool "Device list option"

datatype load_error = FetchFailed | HttpError | BodyError

definition loadReport :: "report_fetch \<Rightarrow> Device \<Rightarrow> Device" where
  \<comment> \<open>The \<open>async (device) => ...\<close> callback of \<open>loadDevices\<close>.\<close>
  "loadReport answer d =
    (case answer of
       ReportRejected \<Rightarrow> d\<lparr> report := None \<rparr>
     | ReportResponse ok body \<Rightarrow>
         if \<not> ok then d\<lparr> report := None \<rparr>
         else (case body of
                 None \<Rightarrow> d\<lparr> report := None \<rparr>
               | Some xmlDoc \<Rightarrow> d\<lparr> report := parseTestReport xmlDoc \<rparr>))"

definition loadDevices ::
  "DeviceManager \<Rightarrow> inventory_fetch \<Rightarrow> (nat \<Rightarrow> report_fetch) \<Rightarrow> (load_error + Device list) \<times> DeviceManager"
where
  \<comment> \<open>The promise's outcome (\<open>Inl\<close>: rejected) and the manager's state afterwards. The
      calls that only write to the page (messages, \<open>updateStats\<close>, the refresh time) are
      left out.\<close>
  "loadDevices m inventory reports =
    (case inventory of
       InventoryRejected \<Rightarrow> (Inl FetchFailed, m)
     | InventoryResponse ok body \<Rightarrow>
         if \<not> ok then (Inl HttpError, m)
         else (case body of
                 None \<Rightarrow> (Inl BodyError, m)
               | Some ds \<Rightarrow>
                   (let m1 = m\<lparr> devicesData :=
                                  map (\<lambda>(i, d). loadReport (reports i) d) (enumerate 0 ds) \<rparr>;
                        m2 = filterDevices m1 (searchTerm m1) (filterType m1)
                    in (Inr (devicesData m2), m2))))"

section \<open>Notions of the specification\<close>

fun showNat :: "nat \<Rightarrow> string" where
  \<comment> \<open>The decimal numeral of a natural number.\<close>
  "showNat n = (if n < 10 then [char_of (48 + n)] else showNat (n div 10) @ [char_of (48 + n mod 10)])"

declare showNat.simps [simp del]

definition showInt :: "int \<Rightarrow> string" where
  "showInt i = (if i < 0 then CHR ''-'' # showNat (nat (- i)) else showNat (nat i))"

definition afterSign :: "string \<Rightarrow> string" where
  \<comment> \<open>The string without its leading white space and without one sign after it.\<close>
  "afterSign s =
    (let S = dropWhile isWhiteSpace s
     in if S \<noteq> [] \<and> (hd S = CHR ''+'' \<or> hd S = CHR ''-'') then tl S else S)"

definition hexPrefix :: "string \<Rightarrow> bool" where
  "hexPrefix u = (take 2 u = ''0x'' \<or> take 2 u = ''0X'')"

definition startsInteger :: "string \<Rightarrow> bool" where
  \<comment> \<open>After white space and a sign the string goes on with a decimal digit, or with
      \<open>0x\<close> and a hexadecimal digit; a bare \<open>0x\<close> does not count.\<close>
  "startsInteger s =
    (let u = afterSign s
     in if hexPrefix u then (case drop 2 u of [] \<Rightarrow> False | c # r \<Rightarrow> isHexDigit c)
        else (case u of [] \<Rightarrow> False | c # r \<Rightarrow> isDigit c))"

definition startsDecimalLiteral :: "string \<Rightarrow> bool" where
  \<comment> \<open>After white space and a sign the string goes on with \<open>Infinity\<close>, with a digit, or
      with a dot and a digit.\<close>
  "startsDecimalLiteral s =
    (let u = afterSign s
     in prefix ''Infinity'' u \<or>
        (case u of
           [] \<Rightarrow> False
         | c # r \<Rightarrow> isDigit c \<or> (c = CHR ''.'' \<and> (case r of [] \<Rightarrow> False | d # r' \<Rightarrow> isDigit d))))"

definition isSign :: "string \<Rightarrow> bool \<Rightarrow> bool" where
  \<comment> \<open>An optional sign, and whether it negates.\<close>
  "isSign sg neg = (if neg then sg = ''-'' else sg = [] \<or> sg = ''+'')"

definition signed :: "bool \<Rightarrow> int \<Rightarrow> int" where
  "signed neg n = (if neg then - n else n)"

definition readsDecimal :: "string \<Rightarrow> bool \<Rightarrow> string \<Rightarrow> bool" where
  \<comment> \<open>The string is white space, an optional sign, the decimal digits \<open>ds\<close> and a rest
      that does not go on with a digit; \<open>0x\<close> is not read as the digit \<open>0\<close>.\<close>
  "readsDecimal s neg ds =
    (\<exists>ws sg rest.
       s = ws @ sg @ ds @ rest \<and> list_all isWhiteSpace ws \<and> isSign sg neg \<and>
       ds \<noteq> [] \<and> list_all isDigit ds \<and>
       (case rest of [] \<Rightarrow> True | c # r \<Rightarrow> \<not> isDigit c) \<and>
       \<not> hexPrefix (ds @ rest))"

definition readsHex :: "string \<Rightarrow> bool \<Rightarrow> string \<Rightarrow> bool" where
  \<comment> \<open>The string is white space, an optional sign, \<open>0x\<close> or \<open>0X\<close>, the hexadecimal digits
      \<open>hs\<close> and a rest that does not go on with a hexadecimal digit.\<close>
  "readsHex s neg hs =
    (\<exists>ws sg x rest.
       s = ws @ sg @ CHR ''0'' # x # hs @ rest \<and> list_all isWhiteSpace ws \<and> isSign sg neg \<and>
       (x = CHR ''x'' \<or> x = CHR ''X'') \<and>
       hs \<noteq> [] \<and> list_all isHexDigit hs \<and>
       (case rest of [] \<Rightarrow> True | c # r \<Rightarrow> \<not> isHexDigit c))"

definition numeric :: "string \<Rightarrow> bool" where
  \<comment> \<open>\<open>parseInt\<close> reads a number from the string.\<close>
  "numeric s = (parseInt s \<noteq> NaN)"

definition attributeCount :: "node \<Rightarrow> string \<Rightarrow> jsnum" where
  \<comment> \<open>The Number a count attribute stands for: 0 when it is absent, what \<open>parseInt\<close>
      reads from it otherwise.\<close>
  "attributeCount ts k = (case getAttribute ts k of None \<Rightarrow> Num 0 | Some s \<Rightarrow> parseInt s)"

definition passedIdentity :: "TestReport \<Rightarrow> bool" where
  \<comment> \<open>\<open>passed + failures + errors + skipped == tests\<close>, evaluated as the language does.\<close>
  "passedIdentity r =
     js_eq (js_add (js_add (js_add (passed r) (failures r)) (errors r)) (skipped r)) (tests r)"

definition countAttributes :: "string list" where
  "countAttributes = [''tests'', ''failures'', ''errors'', ''skipped'']"

definition countOf :: "string \<Rightarrow> TestReport \<Rightarrow> jsnum" where
  \<comment> \<open>The field of the report that holds the count attribute of that name.\<close>
  "countOf k r =
    (if k = ''tests'' then tests r
     else if k = ''failures'' then failures r
     else if k = ''errors'' then errors r
     else skipped r)"

definition hasElement :: "node list \<Rightarrow> string \<Rightarrow> bool" where
  \<comment> \<open>Some element below has that tag name.\<close>
  "hasElement cs tag = (\<exists>e \<in> set (descendants cs). tagName e = tag)"

definition matchedMarker :: "node \<Rightarrow> node option" where
  \<comment> \<open>The marker that decides a test case: its first \<open>failure\<close> element, else its first
      \<open>error\<close> element, else its first \<open>skipped\<close> element.\<close>
  "matchedMarker testcase =
    (case querySelector (childNodes testcase) ''failure'' of
       Some e \<Rightarrow> Some e
     | None \<Rightarrow>
        (case querySelector (childNodes testcase) ''error'' of
           Some e \<Rightarrow> Some e
         | None \<Rightarrow> querySelector (childNodes testcase) ''skipped''))"

definition testcaseElements :: "document \<Rightarrow> node list" where
  \<comment> \<open>The \<open>testcase\<close> elements of a document, in document order.\<close>
  "testcaseElements xmlDoc = filter (\<lambda>e. tagName e = ''testcase'') (descendants xmlDoc)"

definition statusOf :: "node \<Rightarrow> string" where
  \<comment> \<open>The status the markers of a test case give it: failure before error before
      skipped before passed.\<close>
  "statusOf testcase =
    (if hasElement (childNodes testcase) ''failure'' then ''failed''
     else if hasElement (childNodes testcase) ''error'' then ''error''
     else if hasElement (childNodes testcase) ''skipped'' then ''skipped''
     else ''passed'')"

definition markerFields :: "node \<Rightarrow> TestCase \<Rightarrow> bool" where
  \<comment> \<open>What the matched marker of a test case element gives the parsed test case.\<close>
  "markerFields testcase tc =
    (case matchedMarker testcase of
       None \<Rightarrow> tc_message tc = None \<and> tc_details tc = None
     | Some e \<Rightarrow>
         tc_message tc = Some (getAttribute e ''message'') \<and>
         (if tagName e = ''skipped'' then tc_details tc = None
          else (textContent e = [] \<longrightarrow> tc_details tc = None) \<and>
               (trim (textContent e) \<noteq> [] \<longrightarrow> tc_details tc = Some (trim (textContent e)))))"

definition isFirmwareProperty :: "node \<Rightarrow> bool" where
  "isFirmwareProperty e = (tagName e = ''property'' \<and> getAttribute e ''name'' = Some ''firmware_version'')"

definition js_sum :: "jsnum list \<Rightarrow> jsnum" where
  \<comment> \<open>The sum of a list of Numbers, added from left to right, starting from 0.\<close>
  "js_sum xs = foldl js_add (Num 0) xs"

definition reportsOf :: "Device list \<Rightarrow> TestReport list" where
  \<comment> \<open>The reports of the devices that have one.\<close>
  "reportsOf ds = concat (map (\<lambda>d. case report d of None \<Rightarrow> [] | Some r \<Rightarrow> [r]) ds)"

definition containsIgnoringCase :: "string \<Rightarrow> string \<Rightarrow> bool" where
  \<comment> \<open>\<open>t\<close> is a substring of \<open>s\<close>, both taken in lower case.\<close>
  "containsIgnoringCase s t = sublist (toLowerCase t) (toLowerCase s)"

definition matchesTerm :: "Device \<Rightarrow> string \<Rightarrow> bool" where
  "matchesTerm d t =
     (containsIgnoringCase (device d) t \<or> (\<exists>n. name d = Some n \<and> containsIgnoringCase n t))"

definition matchesType :: "Device \<Rightarrow> string \<Rightarrow> bool" where
  "matchesType d ftype =
     (ftype = ''all'' \<or>
      (ftype = ''failed'' \<and>
       (\<exists>r. report d = Some r \<and> (js_gt (failures r) (Num 0) \<or> js_gt (errors r) (Num 0)))))"

definition reportFailed :: "report_fetch \<Rightarrow> bool" where
  \<comment> \<open>The fetch of a report failed: a transport error, a response that is not a success,
      or a body that cannot be read or holds no test suite.\<close>
  "reportFailed answer =
    (case answer of
       ReportRejected \<Rightarrow> True
     | ReportResponse ok body \<Rightarrow>
         \<not> ok \<or> (case body of None \<Rightarrow> True | Some xmlDoc \<Rightarrow> \<not> hasElement xmlDoc ''testsuite''))"

section \<open>Example inputs\<close>

definition doc_non_numeric :: document where
  "doc_non_numeric =
     [Element ''testsuite'' [(''tests'', ''abc''), (''failures'', ''12abc''), (''time'', ''n/a'')] []]"

definition suite_scenario :: node where
  "suite_scenario =
     Element ''testsuite''
       [(''tests'', ''3''), (''failures'', ''1''), (''errors'', ''0''), (''skipped'', ''0'')]
       [Element ''testcase'' [(''classname'', ''tests.boot''), (''name'', ''test_boot'')]
          [Element ''failure'' [(''message'', ''boom'')] []]]"

definition doc_scenario :: document where
  "doc_scenario = [suite_scenario]"

definition doc_counts_without_cases :: document where
  "doc_counts_without_cases = [Element ''testsuite'' [(''tests'', ''5'')] []]"

definition doc_empty_suite :: document where
  "doc_empty_suite = [Element ''testsuite'' [] []]"

definition testcase_all_markers :: node where
  "testcase_all_markers =
     Element ''testcase'' [(''name'', ''t'')]
       [Element ''skipped'' [(''message'', ''s'')] [],
        Element ''error'' [(''message'', ''e'')] [Text ''E''],
        Element ''failure'' [(''message'', ''f'')] [Text '' F '']]"

definition doc_two_firmware :: document where
  "doc_two_firmware =
     [Element ''testsuite'' []
        [Element ''properties'' []
           [Element ''property'' [(''name'', ''firmware_version''), (''value'', ''v1'')] [],
            Element ''property'' [(''name'', ''board''), (''value'', ''x'')] [],
            Element ''property'' [(''name'', ''firmware_version''), (''value'', ''v2'')] []]]]"

definition testcase_skipped_text :: node where
  "testcase_skipped_text =
     Element ''testcase'' [(''name'', ''t'')] [Element ''skipped'' [(''message'', ''m'')] [Text ''reason'']]"

definition doc_markers :: document where
  "doc_markers = [Element ''testsuite'' [] [testcase_all_markers, testcase_skipped_text]]"

definition suite_large_counts :: node where
  "suite_large_counts =
     Element ''testsuite'' [(''tests'', ''9007199254740994''), (''failures'', ''1'')] []"

definition doc_large_counts :: document where
  "doc_large_counts = [suite_large_counts]"

definition report_large :: TestReport where
  "report_large =
     \<lparr> tests = Num 9007199254740992, failures = Num 0, errors = Num 0, skipped = Num 0,
       time = FNum 0, timestamp = None, testcases = [], firmware_version = None,
       passed = Num 9007199254740992 \<rparr>"

definition report_one :: TestReport where
  "report_one =
     \<lparr> tests = Num 1, failures = Num 0, errors = Num 0, skipped = Num 0,
       time = FNum 0, timestamp = None, testcases = [], firmware_version = None,
       passed = Num 1 \<rparr>"

definition manager_large :: DeviceManager where
  "manager_large =
     \<lparr> devicesData =
         [\<lparr> device = ''a'', name = None, version_name = ''v1'', target = None, proxy = None,
            status = None, report = Some report_large \<rparr>,
          \<lparr> device = ''b'', name = None, version_name = ''v1'', target = None, proxy = None,
            status = None, report = Some report_one \<rparr>],
       filteredDevices = [], searchTerm = [], filterType = ''all'' \<rparr>"

definition report_example :: TestReport where
  "report_example =
     \<lparr> tests = Num 3, failures = Num 1, errors = Num 0, skipped = Num 0, time = FNum 0,
       timestamp = None, testcases = [], firmware_version = None, passed = Num 2 \<rparr>"

definition report_clean :: TestReport where
  "report_clean =
     \<lparr> tests = Num 4, failures = Num 0, errors = Num 0, skipped = Num 1, time = FNum 0,
       timestamp = None, testcases = [], firmware_version = None, passed = Num 3 \<rparr>"

definition device_a :: Device where
  "device_a = \<lparr> device = ''AR71xx-1'', name = Some ''name:Router One'', version_name = ''v1'',
                target = None, proxy = None, status = Some ''online'', report = Some report_example \<rparr>"

definition device_b :: Device where
  "device_b = \<lparr> device = ''x86-lab'', name = None, version_name = ''v1'',
                target = None, proxy = None, status = Some ''online'', report = None \<rparr>"

definition device_c :: Device where
  "device_c = \<lparr> device = ''mt7621-2'', name = Some ''Lab Router'', version_name = ''v1'',
                target = None, proxy = None, status = Some ''offline'', report = Some report_clean \<rparr>"

definition manager_example :: DeviceManager where
  "manager_example =
     \<lparr> devicesData = [device_a, device_b, device_c], filteredDevices = [],
       searchTerm = [], filterType = ''all'' \<rparr>"

definition reports_example :: "nat \<Rightarrow> report_fetch" where
  "reports_example i =
     (if i = 0 then ReportResponse True (Some doc_scenario)
      else if i = 1 then ReportResponse False None
      else ReportRejected)"

section \<open>Properties of the string and Number functions\<close>

lemma dropBits_small: "n < 2 ^ 53 \<Longrightarrow> dropBits n = 0"
  by (subst dropBits.simps) simp

lemma nearestDouble_exact:
  assumes "n \<le> 2 ^ 53"
  shows "nearestDouble n = n"
proof (cases "n = 2 ^ 53")
  case True
  have "dropBits (2 ^ 53) = 1"
    by (subst dropBits.simps) (simp add: dropBits_small)
  then show ?thesis using True by (simp add: nearestDouble_def)
next
  case False
  then have "n < 2 ^ 53" using assms by simp
  then show ?thesis by (simp add: nearestDouble_def dropBits_small)
qed

lemma toNumber_exact:
  assumes "\<bar>i\<bar> \<le> 2 ^ 53"
  shows "toNumber i = Num i"
proof -
  have "(2::int) ^ 53 < 2 ^ 1024" by simp
  then have "\<not> (2::int) ^ 1024 \<le> \<bar>i\<bar>" using assms by linarith
  then show ?thesis
    by (simp add: toNumber_def nearestDouble_exact[OF assms] Let_def)
qed

lemma toNumber_not_NaN: "toNumber i \<noteq> NaN"
  by (simp add: toNumber_def Let_def)

lemma toFloat_not_NaN: "toFloat neg x \<noteq> FNaN"
  by (simp add: toFloat_def Let_def)

lemma toFloat_zero: "toFloat neg 0 = FNum 0"
  by (simp add: toFloat_def nearestDoubleRat_def pow2_def)

lemma isDigit_digit: "n < 10 \<Longrightarrow> isDigit (char_of (48 + n :: nat))"
  by (simp add: isDigit_def)

lemma digitValue_digit: "n < 10 \<Longrightarrow> digitValue (char_of (48 + n :: nat)) = n"
  by (simp add: digitValue_def)

lemma showNat_nonempty: "showNat n \<noteq> []"
  by (subst showNat.simps) simp

lemma showNat_digits: "list_all isDigit (showNat n)"
proof (induction n rule: showNat.induct)
  case (1 n)
  show ?case
  proof (cases "n < 10")
    case True
    then show ?thesis by (subst showNat.simps) (simp add: isDigit_digit)
  next
    case False
    then show ?thesis using 1 by (subst showNat.simps) (simp add: isDigit_digit)
  qed
qed

lemma radixValue_snoc: "radixValue R (z @ [c]) = radixValue R z * R + int (digitValue c)"
  by (simp add: radixValue_def)

lemma radixValue_showNat: "radixValue 10 (showNat n) = int n"
proof (induction n rule: showNat.induct)
  case (1 n)
  show ?case
  proof (cases "n < 10")
    case True
    then show ?thesis by (subst showNat.simps) (simp add: radixValue_def digitValue_digit)
  next
    case False
    have "int (n div 10) * 10 + int (n mod 10) = int n"
      by (metis mult.commute of_nat_add of_nat_mult of_nat_numeral div_mult_mod_eq mult.commute)
    then show ?thesis using 1 False
      by (subst showNat.simps) (simp add: radixValue_snoc digitValue_digit)
  qed
qed

lemma digit_facts:
  assumes "isDigit c"
  shows "\<not> isWhiteSpace c" "c \<noteq> CHR ''+''" "c \<noteq> CHR ''-''" "c \<noteq> CHR ''x''" "c \<noteq> CHR ''X''"
    "isHexDigit c"
  using assms by (auto simp: isDigit_def isWhiteSpace_def isHexDigit_def Let_def)

lemma sign_not_white: "\<not> isWhiteSpace CHR ''+''" "\<not> isWhiteSpace CHR ''-''"
  by (simp_all add: isWhiteSpace_def)

lemma parseInt_afterSign:
  "parseInt s =
    (let u = afterSign s;
         Z = (if hexPrefix u then takeWhile isHexDigit (drop 2 u) else takeWhile isDigit u)
     in if Z = [] then NaN
        else toNumber ((if dropWhile isWhiteSpace s \<noteq> [] \<and> hd (dropWhile isWhiteSpace s) = CHR ''-''
                        then - 1 else 1) *
                       radixValue (if hexPrefix u then 16 else 10) Z))"
  by (simp add: parseInt_def afterSign_def trimStart_def hexPrefix_def Let_def)

lemma takeWhile_Nil_conv: "takeWhile P xs = [] \<longleftrightarrow> (case xs of [] \<Rightarrow> True | x # r \<Rightarrow> \<not> P x)"
  by (cases xs) auto

lemma parseInt_NaN_iff: "parseInt s = NaN \<longleftrightarrow> \<not> startsInteger s"
  by (auto simp: parseInt_afterSign startsInteger_def Let_def toNumber_not_NaN takeWhile_Nil_conv
      split: list.splits)

lemma dropWhile_white_sign:
  assumes "list_all isWhiteSpace ws" and "isSign sg neg"
    and "v \<noteq> []" and "\<not> isWhiteSpace (hd v)"
  shows "dropWhile isWhiteSpace (ws @ sg @ v) = sg @ v"
proof -
  have "dropWhile isWhiteSpace (ws @ sg @ v) = dropWhile isWhiteSpace (sg @ v)"
    using assms(1) by (simp add: list_all_iff dropWhile_append2)
  moreover have "dropWhile isWhiteSpace (sg @ v) = sg @ v"
    using assms(2,3,4) by (cases v) (auto simp: isSign_def sign_not_white split: if_splits)
  ultimately show ?thesis by simp
qed

lemma afterSign_decomposed:
  assumes "list_all isWhiteSpace ws" and "isSign sg neg"
    and "v \<noteq> []" and "isDigit (hd v)"
  shows "afterSign (ws @ sg @ v) = v"
    and "(dropWhile isWhiteSpace (ws @ sg @ v) \<noteq> [] \<and>
         hd (dropWhile isWhiteSpace (ws @ sg @ v)) = CHR ''-'') = neg"
proof -
  have d: "dropWhile isWhiteSpace (ws @ sg @ v) = sg @ v"
    using dropWhile_white_sign[OF assms(1,2,3)] digit_facts(1)[OF assms(4)] by simp
  show "afterSign (ws @ sg @ v) = v"
    unfolding afterSign_def d Let_def
    using assms(2,3) digit_facts(2,3)[OF assms(4)]
    by (cases v) (auto simp: isSign_def split: if_splits)
  show "(dropWhile isWhiteSpace (ws @ sg @ v) \<noteq> [] \<and>
         hd (dropWhile isWhiteSpace (ws @ sg @ v)) = CHR ''-'') = neg"
    unfolding d using assms(2,3) digit_facts(2,3)[OF assms(4)]
    by (cases v) (auto simp: isSign_def split: if_splits)
qed

lemma takeWhile_all_then_stop:
  assumes "list_all P xs" and "case rest of [] \<Rightarrow> True | c # r \<Rightarrow> \<not> P c"
  shows "takeWhile P (xs @ rest) = xs"
proof -
  have "takeWhile P (xs @ rest) = xs @ takeWhile P rest"
    using assms(1) by (simp add: list_all_iff takeWhile_append2)
  moreover have "takeWhile P rest = []"
    using assms(2) by (cases rest) auto
  ultimately show ?thesis by simp
qed

lemma parseInt_readsDecimal:
  assumes "readsDecimal s neg ds"
  shows "parseInt s = toNumber (signed neg (radixValue 10 ds))"
proof -
  from assms obtain ws sg rest where
    s: "s = ws @ sg @ ds @ rest" and ws: "list_all isWhiteSpace ws" and sg: "isSign sg neg"
    and ds: "ds \<noteq> []" "list_all isDigit ds"
    and rest: "case rest of [] \<Rightarrow> True | c # r \<Rightarrow> \<not> isDigit c"
    and nohex: "\<not> hexPrefix (ds @ rest)"
    unfolding readsDecimal_def by blast
  have v: "ds @ rest \<noteq> []" "isDigit (hd (ds @ rest))"
    using ds by (cases ds; simp)+
  have u: "afterSign s = ds @ rest"
    unfolding s by (rule afterSign_decomposed(1)[OF ws sg v])
  have n: "(dropWhile isWhiteSpace s \<noteq> [] \<and> hd (dropWhile isWhiteSpace s) = CHR ''-'') = neg"
    unfolding s by (rule afterSign_decomposed(2)[OF ws sg v])
  have z: "takeWhile isDigit (ds @ rest) = ds"
    using takeWhile_all_then_stop[OF ds(2) rest] .
  show ?thesis
    unfolding parseInt_afterSign u n Let_def using nohex ds(1)
    by (simp add: z signed_def)
qed

lemma afterSign_decomposed_hex:
  assumes "list_all isWhiteSpace ws" and "isSign sg neg"
  shows "afterSign (ws @ sg @ CHR ''0'' # v) = CHR ''0'' # v"
    and "(dropWhile isWhiteSpace (ws @ sg @ CHR ''0'' # v) \<noteq> [] \<and>
         hd (dropWhile isWhiteSpace (ws @ sg @ CHR ''0'' # v)) = CHR ''-'') = neg"
proof -
  have z: "isDigit CHR ''0''" by (simp add: isDigit_def)
  show "afterSign (ws @ sg @ CHR ''0'' # v) = CHR ''0'' # v"
    using afterSign_decomposed(1)[OF assms, of "CHR ''0'' # v"] z by simp
  show "(dropWhile isWhiteSpace (ws @ sg @ CHR ''0'' # v) \<noteq> [] \<and>
         hd (dropWhile isWhiteSpace (ws @ sg @ CHR ''0'' # v)) = CHR ''-'') = neg"
    using afterSign_decomposed(2)[OF assms, of "CHR ''0'' # v"] z by simp
qed

lemma parseInt_readsHex:
  assumes "readsHex s neg hs"
  shows "parseInt s = toNumber (signed neg (radixValue 16 hs))"
proof -
  from assms obtain ws sg x rest where
    s: "s = ws @ sg @ CHR ''0'' # x # hs @ rest" and ws: "list_all isWhiteSpace ws"
    and sg: "isSign sg neg" and x: "x = CHR ''x'' \<or> x = CHR ''X''"
    and hs: "hs \<noteq> []" "list_all isHexDigit hs"
    and rest: "case rest of [] \<Rightarrow> True | c # r \<Rightarrow> \<not> isHexDigit c"
    unfolding readsHex_def by blast
  have u: "afterSign s = CHR ''0'' # x # hs @ rest"
    unfolding s by (rule afterSign_decomposed_hex(1)[OF ws sg])
  have n: "(dropWhile isWhiteSpace s \<noteq> [] \<and> hd (dropWhile isWhiteSpace s) = CHR ''-'') = neg"
    unfolding s by (rule afterSign_decomposed_hex(2)[OF ws sg])
  have h: "hexPrefix (CHR ''0'' # x # hs @ rest)"
    using x by (auto simp: hexPrefix_def)
  have z: "takeWhile isHexDigit (hs @ rest) = hs"
    using takeWhile_all_then_stop[OF hs(2) rest] .
  show ?thesis
    unfolding parseInt_afterSign u n Let_def using h hs(1)
    by (simp add: z signed_def)
qed

lemma split_white_sign:
  obtains ws sg neg where "s = ws @ sg @ afterSign s" "list_all isWhiteSpace ws" "isSign sg neg"
proof -
  define ws where "ws = takeWhile isWhiteSpace s"
  define S where "S = dropWhile isWhiteSpace s"
  have s: "s = ws @ S" by (simp add: ws_def S_def)
  have w: "list_all isWhiteSpace ws"
    by (auto simp: ws_def list_all_iff dest: set_takeWhileD)
  show ?thesis
  proof (cases "S \<noteq> [] \<and> (hd S = CHR ''+'' \<or> hd S = CHR ''-'')")
    case True
    then have a: "afterSign s = tl S" by (simp add: afterSign_def S_def)
    have "S = [hd S] @ tl S" using True by simp
    then have "s = ws @ [hd S] @ afterSign s" using s a by simp
    moreover have "isSign [hd S] (hd S = CHR ''-'')" using True by (auto simp: isSign_def)
    ultimately show ?thesis using that w by blast
  next
    case False
    then have a: "afterSign s = S" by (auto simp: afterSign_def S_def)
    have "s = ws @ [] @ afterSign s" using s a by simp
    moreover have "isSign [] False" by (simp add: isSign_def)
    ultimately show ?thesis using that w by blast
  qed
qed

lemma split_digits:
  assumes "u \<noteq> []" and "P (hd u)"
  obtains ds rest where "u = ds @ rest" "ds \<noteq> []" "list_all P ds"
    "case rest of [] \<Rightarrow> True | c # r \<Rightarrow> \<not> P c"
proof -
  have 1: "u = takeWhile P u @ dropWhile P u" by simp
  have 2: "takeWhile P u \<noteq> []" using assms by (cases u) auto
  have 3: "list_all P (takeWhile P u)" by (auto simp: list_all_iff dest: set_takeWhileD)
  have 4: "case dropWhile P u of [] \<Rightarrow> True | c # r \<Rightarrow> \<not> P c"
  proof (cases "dropWhile P u")
    case Nil
    show ?thesis unfolding Nil by simp
  next
    case (Cons c r)
    then have "\<not> P c" using hd_dropWhile[of P u] by simp
    then show ?thesis unfolding Cons by simp
  qed
  show ?thesis using that[OF 1 2 3 4] .
qed

lemma startsInteger_reads:
  assumes "startsInteger s"
  shows "(\<exists>neg ds. readsDecimal s neg ds) \<or> (\<exists>neg hs. readsHex s neg hs)"
proof -
  obtain ws sg neg where s: "s = ws @ sg @ afterSign s" and ws: "list_all isWhiteSpace ws"
    and sg: "isSign sg neg"
    by (rule split_white_sign)
  show ?thesis
  proof (cases "hexPrefix (afterSign s)")
    case True
    then obtain x v where u: "afterSign s = CHR ''0'' # x # v" and x: "x = CHR ''x'' \<or> x = CHR ''X''"
      by (cases "afterSign s"; cases "tl (afterSign s)") (auto simp: hexPrefix_def)
    have "v \<noteq> []" "isHexDigit (hd v)"
      using assms True u by (auto simp: startsInteger_def Let_def split: list.splits)
    then obtain hs rest where "v = hs @ rest" "hs \<noteq> []" "list_all isHexDigit hs"
      "case rest of [] \<Rightarrow> True | c # r \<Rightarrow> \<not> isHexDigit c"
      by (rule split_digits)
    then have "readsHex s neg hs"
      unfolding readsHex_def using s u x ws sg by (metis append_Cons)
    then show ?thesis by blast
  next
    case False
    have "afterSign s \<noteq> []" "isDigit (hd (afterSign s))"
      using assms False by (auto simp: startsInteger_def Let_def split: list.splits)
    then obtain ds rest where d: "afterSign s = ds @ rest" "ds \<noteq> []" "list_all isDigit ds"
      "case rest of [] \<Rightarrow> True | c # r \<Rightarrow> \<not> isDigit c"
      by (rule split_digits)
    have "\<not> hexPrefix (ds @ rest)" using False d(1) by simp
    then have "readsDecimal s neg ds"
      unfolding readsDecimal_def using s d ws sg by metis
    then show ?thesis by blast
  qed
qed

lemma digits_no_hexPrefix:
  assumes "list_all isDigit s"
  shows "\<not> hexPrefix s"
proof -
  have "\<not> list_all isDigit ''0x''" "\<not> list_all isDigit ''0X''"
    by (simp_all add: isDigit_def Let_def)
  moreover have "list_all isDigit (take 2 s)"
    using assms by (auto simp: list_all_iff dest: in_set_takeD)
  ultimately show ?thesis unfolding hexPrefix_def by metis
qed

lemma readsDecimal_showInt: "readsDecimal (showInt i) (i < 0) (showNat (nat \<bar>i\<bar>))"
proof -
  let ?ds = "showNat (nat \<bar>i\<bar>)"
  have "showInt i = [] @ (if i < 0 then ''-'' else []) @ ?ds @ []"
    by (simp add: showInt_def)
  moreover have "isSign (if i < 0 then ''-'' else []) (i < 0)" by (simp add: isSign_def)
  moreover have "\<not> hexPrefix (?ds @ [])" using digits_no_hexPrefix[OF showNat_digits] by simp
  ultimately show ?thesis
    unfolding readsDecimal_def using showNat_nonempty showNat_digits
    by (intro exI[of _ "[]"] exI[of _ "if i < 0 then ''-'' else []"]) simp
qed

lemma parseInt_showInt: "parseInt (showInt i) = toNumber i"
  using parseInt_readsDecimal[OF readsDecimal_showInt, of i]
  by (simp add: radixValue_showNat signed_def)

lemma showInt_nonempty: "showInt i \<noteq> []"
  by (simp add: showInt_def showNat_nonempty)

lemma parseInt_zero: "parseInt ''0'' = Num 0"
  by (simp add: parseInt_def trimStart_def isWhiteSpace_def isDigit_def radixValue_def
      digitValue_def toNumber_exact)

lemma parseFloat_zero: "parseFloat ''0'' = FNum 0"
  by (simp add: parseFloat_def trimStart_def isWhiteSpace_def isDigit_def radixValue_def
      digitValue_def exponentPart_def scale10_def toFloat_zero)

lemma parseFloat_NaN_iff: "parseFloat s = FNaN \<longleftrightarrow> \<not> startsDecimalLiteral s"
proof -
  define u where "u = afterSign s"
  have p: "parseFloat s =
    (if prefix ''Infinity'' u
     then FInfinity (dropWhile isWhiteSpace s \<noteq> [] \<and> hd (dropWhile isWhiteSpace s) = CHR ''-'')
     else (let ip = takeWhile isDigit u;
               r1 = dropWhile isDigit u;
               dot = (r1 \<noteq> [] \<and> hd r1 = CHR ''.'');
               fp = (if dot then takeWhile isDigit (tl r1) else []);
               r2 = (if dot then dropWhile isDigit (tl r1) else r1)
           in if ip = [] \<and> fp = [] then FNaN
              else toFloat (dropWhile isWhiteSpace s \<noteq> [] \<and> hd (dropWhile isWhiteSpace s) = CHR ''-'')
                     (scale10 (of_int (radixValue 10 (ip @ fp)))
                        (exponentPart r2 - int (length fp)))))"
    by (simp add: parseFloat_def afterSign_def trimStart_def u_def Let_def)
  show ?thesis
  proof (cases "prefix ''Infinity'' u")
    case True
    then show ?thesis by (simp add: p startsDecimalLiteral_def u_def[symmetric])
  next
    case False
    show ?thesis
    proof (cases u)
      case Nil
      then show ?thesis using False
        by (simp add: p startsDecimalLiteral_def u_def[symmetric])
    next
      case (Cons c r)
      show ?thesis
      proof (cases "isDigit c")
        case True
        then show ?thesis using False Cons
          by (simp add: p startsDecimalLiteral_def u_def[symmetric] Let_def toFloat_not_NaN)
      next
        case nd: False
        then show ?thesis using False Cons
          by (cases r)
            (auto simp: p startsDecimalLiteral_def u_def[symmetric] Let_def toFloat_not_NaN)
      qed
    qed
  qed
qed

section \<open>Properties of the document queries and the report parser\<close>

lemma foldl_snoc_map: "foldl (\<lambda>acc x. acc @ [f x]) a xs = a @ map f xs"
  by (induction xs arbitrary: a) auto

lemma parseTestReport_Some:
  assumes "querySelector xmlDoc ''testsuite'' = Some ts"
  shows "\<exists>r. parseTestReport xmlDoc = Some r \<and>
     tests r = parseInt (orDefault (getAttribute ts ''tests'') ''0'') \<and>
     failures r = parseInt (orDefault (getAttribute ts ''failures'') ''0'') \<and>
     errors r = parseInt (orDefault (getAttribute ts ''errors'') ''0'') \<and>
     skipped r = parseInt (orDefault (getAttribute ts ''skipped'') ''0'') \<and>
     time r = parseFloat (orDefault (getAttribute ts ''time'') ''0'') \<and>
     passed r = js_sub (js_sub (js_sub (tests r) (failures r)) (errors r)) (skipped r) \<and>
     firmware_version r = findFirmwareVersion (querySelectorAll xmlDoc ''property'') \<and>
     testcases r = map parseTestCase (querySelectorAll xmlDoc ''testcase'')"
  using assms by (simp add: parseTestReport_def Let_def foldl_snoc_map)

lemma countOf_parsed:
  assumes "k \<in> set countAttributes"
    and "tests r = parseInt (orDefault (getAttribute ts ''tests'') ''0'')"
    and "failures r = parseInt (orDefault (getAttribute ts ''failures'') ''0'')"
    and "errors r = parseInt (orDefault (getAttribute ts ''errors'') ''0'')"
    and "skipped r = parseInt (orDefault (getAttribute ts ''skipped'') ''0'')"
  shows "countOf k r = parseInt (orDefault (getAttribute ts k) ''0'')"
  using assms by (auto simp: countAttributes_def countOf_def)

lemma doc_non_numeric_suite:
  "querySelector doc_non_numeric ''testsuite'' =
     Some (Element ''testsuite'' [(''tests'', ''abc''), (''failures'', ''12abc''), (''time'', ''n/a'')] [])"
  by (simp add: doc_non_numeric_def querySelector_def querySelectorAll_def descendants_def)

lemma querySelectorAll_empty_iff: "querySelectorAll cs sel = [] \<longleftrightarrow> \<not> hasElement cs sel"
  by (auto simp: querySelectorAll_def hasElement_def filter_empty_conv)

lemma querySelector_None_iff: "querySelector cs sel = None \<longleftrightarrow> \<not> hasElement cs sel"
proof -
  have "querySelector cs sel = None \<longleftrightarrow> querySelectorAll cs sel = []"
    by (simp add: querySelector_def split: list.splits)
  then show ?thesis by (simp add: querySelectorAll_empty_iff)
qed

lemma querySelector_SomeD:
  assumes "querySelector cs sel = Some e"
  shows "tagName e = sel" "e \<in> set (descendants cs)" "hasElement cs sel"
proof -
  from assms obtain es where "filter (\<lambda>e. tagName e = sel) (descendants cs) = e # es"
    by (auto simp: querySelector_def querySelectorAll_def split: list.splits)
  then have "e \<in> set (filter (\<lambda>e. tagName e = sel) (descendants cs))" by simp
  then show "tagName e = sel" "e \<in> set (descendants cs)" by auto
  then show "hasElement cs sel" by (auto simp: hasElement_def)
qed

lemma parseTestReport_None_iff:
  "parseTestReport xmlDoc = None \<longleftrightarrow> \<not> hasElement xmlDoc ''testsuite''"
  by (auto simp: parseTestReport_def Let_def querySelector_None_iff[symmetric] split: option.splits)

lemma parseTestCase_failure:
  assumes "querySelector (childNodes testcase) ''failure'' = Some e"
  shows "tc_status (parseTestCase testcase) = ''failed''"
    "tc_message (parseTestCase testcase) = Some (getAttribute e ''message'')"
    "tc_details (parseTestCase testcase) =
       (if textContent e = [] then None else Some (trim (textContent e)))"
  using assms by (simp_all add: parseTestCase_def Let_def)

lemma parseTestCase_error:
  assumes "querySelector (childNodes testcase) ''failure'' = None"
    and "querySelector (childNodes testcase) ''error'' = Some e"
  shows "tc_status (parseTestCase testcase) = ''error''"
    "tc_message (parseTestCase testcase) = Some (getAttribute e ''message'')"
    "tc_details (parseTestCase testcase) =
       (if textContent e = [] then None else Some (trim (textContent e)))"
  using assms by (simp_all add: parseTestCase_def Let_def)

lemma parseTestCase_skipped:
  assumes "querySelector (childNodes testcase) ''failure'' = None"
    and "querySelector (childNodes testcase) ''error'' = None"
    and "querySelector (childNodes testcase) ''skipped'' = Some e"
  shows "tc_status (parseTestCase testcase) = ''skipped''"
    "tc_message (parseTestCase testcase) = Some (getAttribute e ''message'')"
    "tc_details (parseTestCase testcase) = None"
  using assms by (simp_all add: parseTestCase_def Let_def)

lemma parseTestCase_passed:
  assumes "querySelector (childNodes testcase) ''failure'' = None"
    and "querySelector (childNodes testcase) ''error'' = None"
    and "querySelector (childNodes testcase) ''skipped'' = None"
  shows "tc_status (parseTestCase testcase) = ''passed''"
    "tc_message (parseTestCase testcase) = None"
    "tc_details (parseTestCase testcase) = None"
  using assms by (simp_all add: parseTestCase_def Let_def)

lemma findFirmwareVersion_step:
  "foldl (\<lambda>fv property.
            if getAttribute property ''name'' = Some ''firmware_version''
            then Some (getAttribute property ''value'') else fv) a ps =
   (case filter (\<lambda>e. getAttribute e ''name'' = Some ''firmware_version'') ps of
      [] \<Rightarrow> a
    | q # qs \<Rightarrow> Some (getAttribute (last (q # qs)) ''value''))"
proof (induction ps rule: rev_induct)
  case Nil
  then show ?case by simp
next
  case (snoc p ps)
  then show ?case by (simp split: list.splits)
qed

lemma filter_firmware:
  "filter (\<lambda>e. getAttribute e ''name'' = Some ''firmware_version'') (querySelectorAll cs ''property'') =
   filter isFirmwareProperty (descendants cs)"
  by (auto simp: querySelectorAll_def isFirmwareProperty_def intro: filter_cong)


lemma testcases_parsed:
  assumes "parseTestReport xmlDoc = Some r"
  shows "testcases r = map parseTestCase (testcaseElements xmlDoc)"
proof -
  from assms obtain ts where "querySelector xmlDoc ''testsuite'' = Some ts"
    by (auto simp: parseTestReport_def split: option.splits)
  from parseTestReport_Some[OF this] assms show ?thesis
    by (auto simp: testcaseElements_def querySelectorAll_def)
qed

lemma status_parseTestCase: "tc_status (parseTestCase testcase) = statusOf testcase"
proof (cases "querySelector (childNodes testcase) ''failure''")
  case (Some e)
  then show ?thesis
    using parseTestCase_failure(1)[OF Some] querySelector_SomeD(3)[OF Some]
    by (simp add: statusOf_def)
next
  case f: None
  show ?thesis
  proof (cases "querySelector (childNodes testcase) ''error''")
    case (Some e)
    then show ?thesis
      using parseTestCase_error(1)[OF f Some] querySelector_SomeD(3)[OF Some] f
      by (simp add: statusOf_def querySelector_None_iff)
  next
    case e: None
    show ?thesis
    proof (cases "querySelector (childNodes testcase) ''skipped''")
      case (Some s)
      then show ?thesis
        using parseTestCase_skipped(1)[OF f e Some] querySelector_SomeD(3)[OF Some] f e
        by (simp add: statusOf_def querySelector_None_iff)
    next
      case None
      then show ?thesis
        using parseTestCase_passed(1)[OF f e None] f e
        by (simp add: statusOf_def querySelector_None_iff)
    qed
  qed
qed

lemma trim_empty: "trim [] = []"
  by (simp add: trim_def)

lemma markerFields_parseTestCase: "markerFields testcase (parseTestCase testcase)"
proof (cases "querySelector (childNodes testcase) ''failure''")
  case (Some e)
  then show ?thesis
    using parseTestCase_failure(2,3)[OF Some] querySelector_SomeD(1)[OF Some]
    by (simp add: markerFields_def matchedMarker_def trim_empty)
next
  case f: None
  show ?thesis
  proof (cases "querySelector (childNodes testcase) ''error''")
    case (Some e)
    then show ?thesis
      using parseTestCase_error(2,3)[OF f Some] querySelector_SomeD(1)[OF Some] f
      by (simp add: markerFields_def matchedMarker_def trim_empty)
  next
    case e: None
    show ?thesis
    proof (cases "querySelector (childNodes testcase) ''skipped''")
      case (Some s)
      then show ?thesis
        using parseTestCase_skipped(2,3)[OF f e Some] querySelector_SomeD(1)[OF Some] f e
        by (simp add: markerFields_def matchedMarker_def trim_empty)
    next
      case None
      then show ?thesis
        using parseTestCase_passed(2,3)[OF f e None] f e
        by (simp add: markerFields_def matchedMarker_def trim_empty)
    qed
  qed
qed

lemma toNumber_round_up: "toNumber 9007199254740994 = Num 9007199254740994"
  by (simp add: toNumber_def nearestDouble_def dropBits.simps)

lemma toNumber_round_tie: "toNumber 9007199254740993 = Num 9007199254740992"
  by (simp add: toNumber_def nearestDouble_def dropBits.simps)

lemma doc_markers_elements:
  "testcaseElements doc_markers = [testcase_all_markers, testcase_skipped_text]"
  by (simp add: testcaseElements_def doc_markers_def descendants_def testcase_all_markers_def
      testcase_skipped_text_def)

lemma doc_markers_parsed: "\<exists>r. parseTestReport doc_markers = Some r"
  by (simp add: parseTestReport_def doc_markers_def querySelector_def querySelectorAll_def
      descendants_def Let_def)

section \<open>Properties of the statistics, the filter and the loader\<close>

lemma reportsOf_simps:
  "reportsOf [] = []"
  "reportsOf (d # ds) = (case report d of None \<Rightarrow> [] | Some r \<Rightarrow> [r]) @ reportsOf ds"
  by (simp_all add: reportsOf_def)

lemma sum_list_abs_nonneg: "0 \<le> sum_list (map abs (ns :: int list))"
  by (induction ns) simp_all

lemma foldl_js_add_exact:
  assumes "\<bar>a\<bar> + sum_list (map abs ns) \<le> 2 ^ 53"
  shows "foldl js_add (Num a) (map Num ns) = Num (a + sum_list ns)"
  using assms
proof (induction ns arbitrary: a)
  case Nil
  then show ?case by simp
next
  case (Cons n ns)
  have "\<bar>a + n\<bar> \<le> 2 ^ 53"
    using Cons.prems sum_list_abs_nonneg[of ns] by simp
  then have s: "js_add (Num a) (Num n) = Num (a + n)"
    by (simp add: toNumber_exact)
  have "\<bar>a + n\<bar> + sum_list (map abs ns) \<le> 2 ^ 53"
    using Cons.prems by simp
  from Cons.IH[OF this] show ?case
    by (simp add: s add.assoc del: js_add.simps)
qed

lemma js_sum_exact:
  assumes "sum_list (map abs ns) \<le> 2 ^ 53"
  shows "js_sum (map Num ns) = Num (sum_list ns)"
  using foldl_js_add_exact[of 0 ns] assms by (simp add: js_sum_def)

lemma failed_values:
  assumes "map failures rs = map Num fs" and "map errors rs = map Num es"
    and "sum_list (map abs fs) + sum_list (map abs es) \<le> 2 ^ 53"
  shows "\<exists>gs. map (\<lambda>r. js_add (failures r) (errors r)) rs = map Num gs \<and>
     sum_list gs = sum_list fs + sum_list es \<and>
     sum_list (map abs gs) \<le> sum_list (map abs fs) + sum_list (map abs es)"
  using assms
proof (induction rs arbitrary: fs es)
  case Nil
  then show ?case by simp
next
  case (Cons r rs)
  from Cons.prems(1) obtain f fs' where fs: "fs = f # fs'" "failures r = Num f"
    "map failures rs = map Num fs'"
    by (cases fs) auto
  from Cons.prems(2) obtain e es' where es: "es = e # es'" "errors r = Num e"
    "map errors rs = map Num es'"
    by (cases es) auto
  have b: "sum_list (map abs fs') + sum_list (map abs es') \<le> 2 ^ 53"
    using Cons.prems(3) fs(1) es(1) by simp
  from Cons.IH[OF fs(3) es(3) b] obtain gs where
    gs: "map (\<lambda>r. js_add (failures r) (errors r)) rs = map Num gs"
    "sum_list gs = sum_list fs' + sum_list es'"
    "sum_list (map abs gs) \<le> sum_list (map abs fs') + sum_list (map abs es')"
    by blast
  have "\<bar>f + e\<bar> \<le> 2 ^ 53"
    using Cons.prems(3) fs(1) es(1) sum_list_abs_nonneg[of fs'] sum_list_abs_nonneg[of es']
    by simp
  then have h: "js_add (failures r) (errors r) = Num (f + e)"
    by (simp add: fs(2) es(2) toNumber_exact)
  have "map (\<lambda>r. js_add (failures r) (errors r)) (r # rs) = map Num ((f + e) # gs)"
    using h gs(1) by simp
  moreover have "sum_list ((f + e) # gs) = sum_list fs + sum_list es"
    using gs(2) fs(1) es(1) by simp
  moreover have "sum_list (map abs ((f + e) # gs)) \<le> sum_list (map abs fs) + sum_list (map abs es)"
    using gs(3) fs(1) es(1) by simp
  ultimately show ?case by blast
qed

lemma updateStats_fold:
  "foldl (\<lambda>stats device.
            case report device of
              Some r \<Rightarrow>
                stats\<lparr> s_totalTests := js_add (s_totalTests stats) (tests r),
                       s_passed := js_add (s_passed stats) (passed r),
                       s_failed := js_add (s_failed stats) (js_add (failures r) (errors r)),
                       s_skipped := js_add (s_skipped stats) (skipped r) \<rparr>
            | None \<Rightarrow> stats) st ds =
   st\<lparr> s_totalTests := foldl js_add (s_totalTests st) (map tests (reportsOf ds)),
       s_passed := foldl js_add (s_passed st) (map passed (reportsOf ds)),
       s_failed := foldl js_add (s_failed st)
                     (map (\<lambda>r. js_add (failures r) (errors r)) (reportsOf ds)),
       s_skipped := foldl js_add (s_skipped st) (map skipped (reportsOf ds)) \<rparr>"
proof (induction ds arbitrary: st)
  case Nil
  show ?case by (simp add: reportsOf_simps)
next
  case (Cons d ds)
  show ?case
  proof (cases "report d")
    case None
    then show ?thesis using Cons by (simp add: reportsOf_simps)
  next
    case (Some r)
    then show ?thesis using Cons by (simp add: reportsOf_simps)
  qed
qed

lemma list_all2_map_right: "(\<And>x. P x (f x)) \<Longrightarrow> list_all2 P xs (map f xs)"
  by (induction xs) simp_all

lemma js_includes_sublist: "js_includes s t \<longleftrightarrow> sublist t s"
  by (induction s) (simp_all add: sublist_Cons_right)

lemma matchesSearch_iff: "matchesSearch d t \<longleftrightarrow> matchesTerm d t"
proof (cases "name d")
  case None
  then show ?thesis
    by (simp add: matchesSearch_def matchesTerm_def containsIgnoringCase_def js_includes_sublist)
next
  case (Some n)
  show ?thesis
  proof (cases "n = []")
    case True
    then show ?thesis using Some
      by (auto simp: matchesSearch_def matchesTerm_def containsIgnoringCase_def
          js_includes_sublist toLowerCase_def)
  next
    case False
    then show ?thesis using Some
      by (simp add: matchesSearch_def matchesTerm_def containsIgnoringCase_def js_includes_sublist)
  qed
qed

lemma matchesFilter_iff: "matchesFilter d ftype \<longleftrightarrow> matchesType d ftype"
  by (cases "report d") (simp_all add: matchesFilter_def matchesType_def)

lemma filteredDevices_filterDevices:
  "filteredDevices (filterDevices m search ftype) =
     filter (\<lambda>d. matchesTerm d search \<and> matchesType d ftype) (devicesData m)"
  by (simp add: filterDevices_def matchesSearch_iff matchesFilter_iff)

lemma loadReport_cases:
  "reportFailed answer \<Longrightarrow> report (loadReport answer d) = None"
  "loadReport (ReportResponse True (Some xmlDoc)) d = d\<lparr> report := parseTestReport xmlDoc \<rparr>"
  "(loadReport answer d)\<lparr> report := None \<rparr> = d\<lparr> report := None \<rparr>"
  by (auto simp: loadReport_def reportFailed_def parseTestReport_None_iff
      split: report_fetch.splits option.splits)

lemma loadDevices_ok:
  "loadDevices m (InventoryResponse True (Some ds)) reports =
     (Inr (map (\<lambda>(i, d). loadReport (reports i) d) (enumerate 0 ds)),
      filterDevices (m\<lparr> devicesData := map (\<lambda>(i, d). loadReport (reports i) d) (enumerate 0 ds) \<rparr>)
        (searchTerm m) (filterType m))"
  by (simp add: loadDevices_def Let_def filterDevices_def)

lemma loaded_nth:
  assumes "i < length ds"
  shows "map (\<lambda>(j, d). loadReport (reports j) d) (enumerate 0 ds) ! i =
     loadReport (reports i) (ds ! i)"
proof -
  have e: "enumerate 0 ds ! i = (i, ds ! i)"
    using assms by (simp add: nth_enumerate_eq)
  have "map (\<lambda>(j, d). loadReport (reports j) d) (enumerate 0 ds) ! i =
      (\<lambda>(j, d). loadReport (reports j) d) (enumerate 0 ds ! i)"
    using assms by (intro nth_map) simp
  also have "\<dots> = loadReport (reports i) (ds ! i)"
    unfolding e by simp
  finally show ?thesis .
qed

section \<open>The claims\<close>

text \<open>
  C1, as the code has it. For every document with a \<open>testsuite\<close> element, parsing
  returns a report (it has no failing branch). Each count field (\<open>tests\<close>, \<open>failures\<close>,
  \<open>errors\<close>, \<open>skipped\<close>) is 0 when its attribute is absent or empty. Otherwise it is
  what \<open>parseInt\<close> reads from the attribute: NaN (not 0) exactly when the attribute does
  not start with an integer, and otherwise the value of its leading decimal digits, or of
  the hexadecimal digits after \<open>0x\<close>, rounded to the nearest double; so it is the integer
  \<open>i\<close> itself when the attribute is the decimal numeral of \<open>i\<close> and \<open>i\<close> is at most
  \<open>2^53\<close> in magnitude. Likewise \<open>time\<close> is 0 when its attribute is absent or empty, and
  NaN exactly when the attribute is not empty and does not start with a decimal literal.
\<close>

theorem count_attributes_parsed:
  assumes "querySelector xmlDoc ''testsuite'' = Some ts" and "k \<in> set countAttributes"
  shows "\<exists>r. parseTestReport xmlDoc = Some r \<and>
     (getAttribute ts k = None \<or> getAttribute ts k = Some [] \<longrightarrow> countOf k r = Num 0) \<and>
     (\<forall>s. getAttribute ts k = Some s \<and> s \<noteq> [] \<longrightarrow>
        countOf k r = parseInt s \<and>
        (countOf k r = NaN \<longleftrightarrow> \<not> startsInteger s) \<and>
        (\<forall>neg ds. readsDecimal s neg ds \<longrightarrow>
           countOf k r = toNumber (signed neg (radixValue 10 ds))) \<and>
        (\<forall>neg hs. readsHex s neg hs \<longrightarrow>
           countOf k r = toNumber (signed neg (radixValue 16 hs))) \<and>
        (startsInteger s \<longrightarrow> (\<exists>neg ds. readsDecimal s neg ds) \<or> (\<exists>neg hs. readsHex s neg hs)) \<and>
        (\<forall>i. s = showInt i \<and> \<bar>i\<bar> \<le> 2 ^ 53 \<longrightarrow> countOf k r = Num i)) \<and>
     (getAttribute ts ''time'' = None \<or> getAttribute ts ''time'' = Some [] \<longrightarrow> time r = FNum 0) \<and>
     (\<forall>s. getAttribute ts ''time'' = Some s \<and> s \<noteq> [] \<longrightarrow>
        time r = parseFloat s \<and> (time r = FNaN \<longleftrightarrow> \<not> startsDecimalLiteral s))"
proof -
  from parseTestReport_Some[OF assms(1)] obtain r where
    r: "parseTestReport xmlDoc = Some r"
    and fields: "tests r = parseInt (orDefault (getAttribute ts ''tests'') ''0'')"
      "failures r = parseInt (orDefault (getAttribute ts ''failures'') ''0'')"
      "errors r = parseInt (orDefault (getAttribute ts ''errors'') ''0'')"
      "skipped r = parseInt (orDefault (getAttribute ts ''skipped'') ''0'')"
    and t: "time r = parseFloat (orDefault (getAttribute ts ''time'') ''0'')"
    by blast
  have c: "countOf k r = parseInt (orDefault (getAttribute ts k) ''0'')"
    using countOf_parsed[OF assms(2) fields] .
  have c0: "getAttribute ts k = None \<or> getAttribute ts k = Some [] \<longrightarrow> countOf k r = Num 0"
    using c by (auto simp: orDefault_def parseInt_zero)
  have cs: "countOf k r = parseInt s \<and>
        (countOf k r = NaN \<longleftrightarrow> \<not> startsInteger s) \<and>
        (\<forall>neg ds. readsDecimal s neg ds \<longrightarrow>
           countOf k r = toNumber (signed neg (radixValue 10 ds))) \<and>
        (\<forall>neg hs. readsHex s neg hs \<longrightarrow>
           countOf k r = toNumber (signed neg (radixValue 16 hs))) \<and>
        (startsInteger s \<longrightarrow> (\<exists>neg ds. readsDecimal s neg ds) \<or> (\<exists>neg hs. readsHex s neg hs)) \<and>
        (\<forall>i. s = showInt i \<and> \<bar>i\<bar> \<le> 2 ^ 53 \<longrightarrow> countOf k r = Num i)"
    if "getAttribute ts k = Some s \<and> s \<noteq> []" for s
  proof -
    have p: "countOf k r = parseInt s" using c that by (simp add: orDefault_def)
    have "\<forall>i. s = showInt i \<and> \<bar>i\<bar> \<le> 2 ^ 53 \<longrightarrow> parseInt s = Num i"
      by (auto simp: parseInt_showInt toNumber_exact)
    then show ?thesis
      unfolding p
      using parseInt_NaN_iff[of s] parseInt_readsDecimal[of s] parseInt_readsHex[of s]
        startsInteger_reads[of s]
      by blast
  qed
  have t0: "getAttribute ts ''time'' = None \<or> getAttribute ts ''time'' = Some [] \<longrightarrow> time r = FNum 0"
    using t by (auto simp: orDefault_def parseFloat_zero)
  have tn: "\<forall>s. getAttribute ts ''time'' = Some s \<and> s \<noteq> [] \<longrightarrow>
        time r = parseFloat s \<and> (time r = FNaN \<longleftrightarrow> \<not> startsDecimalLiteral s)"
    using t by (simp add: orDefault_def parseFloat_NaN_iff)
  show ?thesis using r c0 cs t0 tn by blast
qed

text \<open>
  The theorem at a test suite with \<open>tests="abc"\<close>, \<open>failures="12abc"\<close> and
  \<open>time="n/a"\<close>: the counts are NaN and 12, the time is NaN.
\<close>

theorem count_attributes_parsed_witness:
  "querySelector doc_non_numeric ''testsuite'' =
     Some (Element ''testsuite'' [(''tests'', ''abc''), (''failures'', ''12abc''), (''time'', ''n/a'')] []) \<and>
   ''failures'' \<in> set countAttributes \<and> ''tests'' \<in> set countAttributes \<and>
   readsDecimal ''12abc'' False ''12'' \<and> \<not> startsInteger ''abc'' \<and>
   \<not> startsDecimalLiteral ''n/a'' \<and>
   map_option (countOf ''failures'') (parseTestReport doc_non_numeric) = Some (Num 12) \<and>
   map_option (countOf ''tests'') (parseTestReport doc_non_numeric) = Some NaN \<and>
   map_option time (parseTestReport doc_non_numeric) = Some FNaN"
proof -
  let ?ts = "Element ''testsuite'' [(''tests'', ''abc''), (''failures'', ''12abc''), (''time'', ''n/a'')] []"
  have kf: "''failures'' \<in> set countAttributes" and kt: "''tests'' \<in> set countAttributes"
    by (simp_all add: countAttributes_def)
  have d: "isDigit CHR ''1''" "isDigit CHR ''2''" "\<not> isDigit CHR ''a''" "\<not> isDigit CHR ''n''"
    by (simp_all add: isDigit_def)
  have w: "\<not> isWhiteSpace CHR ''a''" "\<not> isWhiteSpace CHR ''n''"
    by (simp_all add: isWhiteSpace_def)
  have rd: "readsDecimal ''12abc'' False ''12''"
    unfolding readsDecimal_def
    by (intro exI[of _ "[]"] exI[of _ "''abc''"]) (simp add: isSign_def d hexPrefix_def)
  have ni: "\<not> startsInteger ''abc''"
    by (simp add: startsInteger_def afterSign_def hexPrefix_def w d)
  have nd: "\<not> startsDecimalLiteral ''n/a''"
    by (simp add: startsDecimalLiteral_def afterSign_def w d)
  have v: "toNumber (signed False (radixValue 10 ''12'')) = Num 12"
    by (simp add: radixValue_def digitValue_def signed_def toNumber_exact)
  have af: "getAttribute ?ts ''failures'' = Some ''12abc'' \<and> ''12abc'' \<noteq> []"
    and at: "getAttribute ?ts ''tests'' = Some ''abc'' \<and> ''abc'' \<noteq> []"
    and am: "getAttribute ?ts ''time'' = Some ''n/a'' \<and> ''n/a'' \<noteq> []"
    by simp_all
  from count_attributes_parsed[OF doc_non_numeric_suite kf]
  obtain r where
    r: "parseTestReport doc_non_numeric = Some r"
    and f0: "getAttribute ?ts ''failures'' = None \<or> getAttribute ?ts ''failures'' = Some [] \<longrightarrow>
        countOf ''failures'' r = Num 0"
    and f: "\<forall>s. getAttribute ?ts ''failures'' = Some s \<and> s \<noteq> [] \<longrightarrow>
        countOf ''failures'' r = parseInt s \<and>
        (countOf ''failures'' r = NaN \<longleftrightarrow> \<not> startsInteger s) \<and>
        (\<forall>neg ds. readsDecimal s neg ds \<longrightarrow>
           countOf ''failures'' r = toNumber (signed neg (radixValue 10 ds))) \<and>
        (\<forall>neg hs. readsHex s neg hs \<longrightarrow>
           countOf ''failures'' r = toNumber (signed neg (radixValue 16 hs))) \<and>
        (startsInteger s \<longrightarrow> (\<exists>neg ds. readsDecimal s neg ds) \<or> (\<exists>neg hs. readsHex s neg hs)) \<and>
        (\<forall>i. s = showInt i \<and> \<bar>i\<bar> \<le> 2 ^ 53 \<longrightarrow> countOf ''failures'' r = Num i)"
    and t0: "getAttribute ?ts ''time'' = None \<or> getAttribute ?ts ''time'' = Some [] \<longrightarrow>
        time r = FNum 0"
    and tm: "\<forall>s. getAttribute ?ts ''time'' = Some s \<and> s \<noteq> [] \<longrightarrow>
        time r = parseFloat s \<and> (time r = FNaN \<longleftrightarrow> \<not> startsDecimalLiteral s)"
    by (elim exE conjE) (rule that)
  from count_attributes_parsed[OF doc_non_numeric_suite kt]
  obtain r' where
    r': "parseTestReport doc_non_numeric = Some r'"
    and z0: "getAttribute ?ts ''tests'' = None \<or> getAttribute ?ts ''tests'' = Some [] \<longrightarrow>
        countOf ''tests'' r' = Num 0"
    and t: "\<forall>s. getAttribute ?ts ''tests'' = Some s \<and> s \<noteq> [] \<longrightarrow>
        countOf ''tests'' r' = parseInt s \<and>
        (countOf ''tests'' r' = NaN \<longleftrightarrow> \<not> startsInteger s) \<and>
        (\<forall>neg ds. readsDecimal s neg ds \<longrightarrow>
           countOf ''tests'' r' = toNumber (signed neg (radixValue 10 ds))) \<and>
        (\<forall>neg hs. readsHex s neg hs \<longrightarrow>
           countOf ''tests'' r' = toNumber (signed neg (radixValue 16 hs))) \<and>
        (startsInteger s \<longrightarrow> (\<exists>neg ds. readsDecimal s neg ds) \<or> (\<exists>neg hs. readsHex s neg hs)) \<and>
        (\<forall>i. s = showInt i \<and> \<bar>i\<bar> \<le> 2 ^ 53 \<longrightarrow> countOf ''tests'' r' = Num i)"
    and t0': "getAttribute ?ts ''time'' = None \<or> getAttribute ?ts ''time'' = Some [] \<longrightarrow>
        time r' = FNum 0"
    and tm': "\<forall>s. getAttribute ?ts ''time'' = Some s \<and> s \<noteq> [] \<longrightarrow>
        time r' = parseFloat s \<and> (time r' = FNaN \<longleftrightarrow> \<not> startsDecimalLiteral s)"
    by (elim exE conjE) (rule that)
  have same: "r' = r" using r r' by simp
  have "\<forall>neg ds. readsDecimal ''12abc'' neg ds \<longrightarrow>
           countOf ''failures'' r = toNumber (signed neg (radixValue 10 ds))"
    using f[rule_format, OF af] by (elim conjE)
  then have 1: "countOf ''failures'' r = Num 12"
    using rd v by (metis (no_types))
  have "countOf ''tests'' r' = NaN \<longleftrightarrow> \<not> startsInteger ''abc''"
    using t[rule_format, OF at] by (elim conjE)
  then have 2: "countOf ''tests'' r = NaN"
    using ni same by simp
  have "time r = FNaN \<longleftrightarrow> \<not> startsDecimalLiteral ''n/a''"
    using tm[rule_format, OF am] by (elim conjE)
  then have 3: "time r = FNaN"
    using nd by simp
  show ?thesis
    unfolding r using doc_non_numeric_suite kf kt rd ni nd 1 2 3 by simp
qed

text \<open>
  C1 as stated fails: with \<open>tests="abc"\<close> and \<open>time="n/a"\<close> the parsed \<open>tests\<close> and
  \<open>time\<close> are NaN, not 0.
\<close>

theorem count_non_numeric_counterexample:
  "map_option tests (parseTestReport doc_non_numeric) = Some NaN \<and>
   map_option tests (parseTestReport doc_non_numeric) \<noteq> Some (Num 0) \<and>
   map_option time (parseTestReport doc_non_numeric) = Some FNaN \<and>
   map_option time (parseTestReport doc_non_numeric) \<noteq> Some (FNum 0)"
  by (simp add: doc_non_numeric_def parseTestReport_def querySelector_def querySelectorAll_def
      descendants_def Let_def orDefault_def parseInt_def parseFloat_def trimStart_def
      isWhiteSpace_def isDigit_def)

text \<open>
  C2, as the code has it. For every document with a \<open>testsuite\<close> element whose count
  attributes are each absent or numeric, standing for the integers \<open>t\<close>, \<open>f\<close>, \<open>e\<close>
  and \<open>s\<close> (0 for an absent attribute) whose magnitudes add up to at most \<open>2^53\<close>, the
  report has these counts, \<open>passed = t - f - e - s\<close>, and satisfies
  \<open>passed + failures + errors + skipped == tests\<close>.
\<close>

theorem passed_identity:
  assumes "querySelector xmlDoc ''testsuite'' = Some ts"
    and "attributeCount ts ''tests'' = Num t"
    and "attributeCount ts ''failures'' = Num f"
    and "attributeCount ts ''errors'' = Num e"
    and "attributeCount ts ''skipped'' = Num s"
    and "\<bar>t\<bar> + \<bar>f\<bar> + \<bar>e\<bar> + \<bar>s\<bar> \<le> 2 ^ 53"
  shows "\<exists>r. parseTestReport xmlDoc = Some r \<and>
     tests r = Num t \<and> failures r = Num f \<and> errors r = Num e \<and> skipped r = Num s \<and>
     passed r = Num (t - f - e - s) \<and> passedIdentity r"
proof -
  from parseTestReport_Some[OF assms(1)] obtain r where
    r: "parseTestReport xmlDoc = Some r"
    and fields: "tests r = parseInt (orDefault (getAttribute ts ''tests'') ''0'')"
      "failures r = parseInt (orDefault (getAttribute ts ''failures'') ''0'')"
      "errors r = parseInt (orDefault (getAttribute ts ''errors'') ''0'')"
      "skipped r = parseInt (orDefault (getAttribute ts ''skipped'') ''0'')"
    and p: "passed r = js_sub (js_sub (js_sub (tests r) (failures r)) (errors r)) (skipped r)"
    by blast
  have same: "parseInt (orDefault (getAttribute ts k) ''0'') = Num n"
    if "attributeCount ts k = Num n" for k n
  proof (cases "getAttribute ts k")
    case None
    then show ?thesis using that by (simp add: attributeCount_def orDefault_def parseInt_zero)
  next
    case (Some a)
    have "parseInt [] = NaN" by (simp add: parseInt_def trimStart_def)
    then have "a \<noteq> []" using that Some by (auto simp: attributeCount_def)
    then show ?thesis using that Some by (simp add: attributeCount_def orDefault_def)
  qed
  have v: "tests r = Num t" "failures r = Num f" "errors r = Num e" "skipped r = Num s"
    using fields same assms(2-5) by simp_all
  have b: "\<bar>t - f\<bar> \<le> 2 ^ 53" "\<bar>t - f - e\<bar> \<le> 2 ^ 53" "\<bar>t - f - e - s\<bar> \<le> 2 ^ 53"
    "\<bar>t - e - s\<bar> \<le> 2 ^ 53" "\<bar>t - s\<bar> \<le> 2 ^ 53" "\<bar>t\<bar> \<le> 2 ^ 53"
    using assms(6) by linarith+
  have x: "toNumber (t - f) = Num (t - f)" "toNumber (t - f - e) = Num (t - f - e)"
    "toNumber (t - f - e - s) = Num (t - f - e - s)" "toNumber (t - e - s) = Num (t - e - s)"
    "toNumber (t - s) = Num (t - s)" "toNumber t = Num t"
    using b by (simp_all only: toNumber_exact)
  have pv: "passed r = Num (t - f - e - s)"
    unfolding p v by (simp only: js_sub.simps x)
  have y: "t - f - e - s + f = t - e - s" "t - e - s + e = t - s" "t - s + s = t" by simp_all
  have "js_add (js_add (js_add (passed r) (failures r)) (errors r)) (skipped r) = Num t"
    unfolding pv v by (simp only: js_add.simps x y)
  then show ?thesis using r v pv by (simp add: passedIdentity_def)
qed

text \<open>The theorem at the scenario report: 3 tests, 1 failure, so 2 passed.\<close>

theorem passed_identity_witness:
  "querySelector doc_scenario ''testsuite'' = Some suite_scenario \<and>
   attributeCount suite_scenario ''tests'' = Num 3 \<and>
   attributeCount suite_scenario ''failures'' = Num 1 \<and>
   attributeCount suite_scenario ''errors'' = Num 0 \<and>
   attributeCount suite_scenario ''skipped'' = Num 0 \<and>
   \<bar>3 :: int\<bar> + \<bar>1\<bar> + \<bar>0\<bar> + \<bar>0\<bar> \<le> 2 ^ 53 \<and>
   (\<exists>r. parseTestReport doc_scenario = Some r \<and> passed r = Num 2 \<and> passedIdentity r)"
proof -
  have q: "querySelector doc_scenario ''testsuite'' = Some suite_scenario"
    by (simp add: doc_scenario_def suite_scenario_def querySelector_def querySelectorAll_def
        descendants_def)
  have a: "attributeCount suite_scenario ''tests'' = Num 3"
    "attributeCount suite_scenario ''failures'' = Num 1"
    "attributeCount suite_scenario ''errors'' = Num 0"
    "attributeCount suite_scenario ''skipped'' = Num 0"
    by (simp_all add: attributeCount_def suite_scenario_def parseInt_def trimStart_def
        isWhiteSpace_def isDigit_def radixValue_def digitValue_def toNumber_exact)
  have b: "\<bar>3 :: int\<bar> + \<bar>1\<bar> + \<bar>0\<bar> + \<bar>0\<bar> \<le> 2 ^ 53" by simp
  from passed_identity[OF q a b] obtain r where
    "parseTestReport doc_scenario = Some r" "passed r = Num (3 - 1 - 0 - 0)"
    "passedIdentity r"
    by blast
  then show ?thesis using q a b by auto
qed

text \<open>
  C2 as stated fails beyond \<open>2^53\<close>, where a difference is rounded: with
  \<open>tests="9007199254740994"\<close> and \<open>failures="1"\<close>, both numeric, \<open>passed\<close> is
  9007199254740992, and \<open>passed + failures\<close> is 9007199254740992 again, not \<open>tests\<close>.
\<close>

theorem passed_identity_counterexample:
  "querySelector doc_large_counts ''testsuite'' = Some suite_large_counts \<and>
   getAttribute suite_large_counts ''tests'' = Some ''9007199254740994'' \<and>
   numeric ''9007199254740994'' \<and>
   getAttribute suite_large_counts ''failures'' = Some ''1'' \<and> numeric ''1'' \<and>
   getAttribute suite_large_counts ''errors'' = None \<and>
   getAttribute suite_large_counts ''skipped'' = None \<and>
   map_option tests (parseTestReport doc_large_counts) = Some (Num 9007199254740994) \<and>
   map_option failures (parseTestReport doc_large_counts) = Some (Num 1) \<and>
   map_option passed (parseTestReport doc_large_counts) = Some (Num 9007199254740992) \<and>
   map_option passedIdentity (parseTestReport doc_large_counts) = Some False"
proof -
  have t: "parseInt ''9007199254740994'' = Num 9007199254740994"
    by (simp add: parseInt_def trimStart_def isWhiteSpace_def isDigit_def radixValue_def
        digitValue_def toNumber_round_up)
  have o: "parseInt ''1'' = Num 1"
    by (simp add: parseInt_def trimStart_def isWhiteSpace_def isDigit_def radixValue_def
        digitValue_def toNumber_exact)
  have n: "numeric ''9007199254740994''" "numeric ''1''"
    by (simp_all add: numeric_def t o)
  have q: "querySelector doc_large_counts ''testsuite'' = Some suite_large_counts"
    by (simp add: doc_large_counts_def suite_large_counts_def querySelector_def
        querySelectorAll_def descendants_def)
  have a: "getAttribute suite_large_counts ''tests'' = Some ''9007199254740994''"
    "getAttribute suite_large_counts ''failures'' = Some ''1''"
    "getAttribute suite_large_counts ''errors'' = None"
    "getAttribute suite_large_counts ''skipped'' = None"
    by (simp_all add: suite_large_counts_def)
  have "parseTestReport doc_large_counts =
      Some \<lparr> tests = Num 9007199254740994, failures = Num 1, errors = Num 0, skipped = Num 0,
             time = FNum 0, timestamp = None, testcases = [], firmware_version = None,
             passed = Num 9007199254740992 \<rparr>"
    by (simp add: parseTestReport_def doc_large_counts_def suite_large_counts_def
        querySelector_def querySelectorAll_def descendants_def Let_def orDefault_def t o
        parseInt_zero parseFloat_zero toNumber_round_tie toNumber_exact findFirmwareVersion_def)
  then show ?thesis
    using q a n by (simp add: passedIdentity_def toNumber_round_tie toNumber_exact)
qed

text \<open>
  C3, as the code has it. Parsing returns null exactly when the document has no
  \<open>testsuite\<close> element. A document with a \<open>testsuite\<close> element and no \<open>testcase\<close>
  element yields a report with an empty test case sequence; its \<open>tests\<close> is read from
  the \<open>tests\<close> attribute and \<open>passed\<close> is computed from the four counts, so both are 0
  when the count attributes are absent.
\<close>

theorem parse_null_iff_no_testsuite:
  "(parseTestReport xmlDoc = None \<longleftrightarrow> \<not> hasElement xmlDoc ''testsuite'') \<and>
   (\<forall>ts. querySelector xmlDoc ''testsuite'' = Some ts \<and> \<not> hasElement xmlDoc ''testcase'' \<longrightarrow>
      (\<exists>r. parseTestReport xmlDoc = Some r \<and> testcases r = [] \<and>
           tests r = parseInt (orDefault (getAttribute ts ''tests'') ''0'') \<and>
           passed r = js_sub (js_sub (js_sub (tests r) (failures r)) (errors r)) (skipped r) \<and>
           ((\<forall>k \<in> set countAttributes. getAttribute ts k = None) \<longrightarrow>
              tests r = Num 0 \<and> passed r = Num 0)))"
proof (intro conjI allI impI)
  show "parseTestReport xmlDoc = None \<longleftrightarrow> \<not> hasElement xmlDoc ''testsuite''"
    by (rule parseTestReport_None_iff)
next
  fix ts
  assume a: "querySelector xmlDoc ''testsuite'' = Some ts \<and> \<not> hasElement xmlDoc ''testcase''"
  from parseTestReport_Some[of xmlDoc ts] a obtain r where
    r: "parseTestReport xmlDoc = Some r"
    and fields: "tests r = parseInt (orDefault (getAttribute ts ''tests'') ''0'')"
      "failures r = parseInt (orDefault (getAttribute ts ''failures'') ''0'')"
      "errors r = parseInt (orDefault (getAttribute ts ''errors'') ''0'')"
      "skipped r = parseInt (orDefault (getAttribute ts ''skipped'') ''0'')"
    and p: "passed r = js_sub (js_sub (js_sub (tests r) (failures r)) (errors r)) (skipped r)"
    and c: "testcases r = map parseTestCase (querySelectorAll xmlDoc ''testcase'')"
    by blast
  have "querySelectorAll xmlDoc ''testcase'' = []"
    using a by (simp add: querySelectorAll_empty_iff)
  then have e: "testcases r = []" using c by simp
  have z: "tests r = Num 0 \<and> passed r = Num 0"
    if "\<forall>k \<in> set countAttributes. getAttribute ts k = None"
    using that fields p by (simp add: countAttributes_def orDefault_def parseInt_zero toNumber_exact)
  show "\<exists>r. parseTestReport xmlDoc = Some r \<and> testcases r = [] \<and>
           tests r = parseInt (orDefault (getAttribute ts ''tests'') ''0'') \<and>
           passed r = js_sub (js_sub (js_sub (tests r) (failures r)) (errors r)) (skipped r) \<and>
           ((\<forall>k \<in> set countAttributes. getAttribute ts k = None) \<longrightarrow>
              tests r = Num 0 \<and> passed r = Num 0)"
    using r e fields(1) p z by blast
qed

text \<open>The theorem at \<open><testsuite/>\<close>.\<close>

theorem parse_null_iff_no_testsuite_witness:
  "querySelector doc_empty_suite ''testsuite'' = Some (Element ''testsuite'' [] []) \<and>
   \<not> hasElement doc_empty_suite ''testcase'' \<and>
   list_all (\<lambda>k. getAttribute (Element ''testsuite'' [] []) k = None) countAttributes \<and>
   (\<exists>r. parseTestReport doc_empty_suite = Some r \<and> testcases r = [] \<and>
        tests r = Num 0 \<and> passed r = Num 0)"
proof -
  have q: "querySelector doc_empty_suite ''testsuite'' = Some (Element ''testsuite'' [] [])"
    by (simp add: doc_empty_suite_def querySelector_def querySelectorAll_def descendants_def)
  have n: "\<not> hasElement doc_empty_suite ''testcase''"
    by (simp add: doc_empty_suite_def hasElement_def descendants_def)
  have k: "\<forall>k \<in> set countAttributes. getAttribute (Element ''testsuite'' [] []) k = None"
    by simp
  from parse_null_iff_no_testsuite[of doc_empty_suite] q n k
  obtain r where "parseTestReport doc_empty_suite = Some r" "testcases r = []"
    "tests r = Num 0" "passed r = Num 0"
    by blast
  then show ?thesis using q n by (simp add: list_all_iff)
qed

text \<open>
  C3 as stated fails: \<open><testsuite tests="5"/>\<close> has no test case, and its report has
  \<open>tests = 5\<close> and \<open>passed = 5\<close>, not 0.
\<close>

theorem empty_suite_counts_counterexample:
  "hasElement doc_counts_without_cases ''testsuite'' \<and>
   \<not> hasElement doc_counts_without_cases ''testcase'' \<and>
   map_option testcases (parseTestReport doc_counts_without_cases) = Some [] \<and>
   map_option tests (parseTestReport doc_counts_without_cases) = Some (Num 5) \<and>
   map_option passed (parseTestReport doc_counts_without_cases) = Some (Num 5)"
  by (simp add: doc_counts_without_cases_def hasElement_def parseTestReport_def querySelector_def
      querySelectorAll_def descendants_def Let_def orDefault_def parseInt_def trimStart_def
      isWhiteSpace_def isDigit_def radixValue_def digitValue_def toNumber_exact)

text \<open>
  C4. When the inventory is fetched, \<open>loadDevices\<close> resolves with one device per
  inventory entry, in order and unchanged but for \<open>report\<close>. A device whose report fetch
  failed has the report null; a device whose report was fetched has the parsed report; and
  the result for a device depends only on the answer to its own report fetch.
\<close>

theorem load_devices_isolates_failures:
  assumes "loadDevices m (InventoryResponse True (Some ds)) reports = (res, m')"
  shows "\<exists>ds'. res = Inr ds' \<and> devicesData m' = ds' \<and> length ds' = length ds \<and>
     (\<forall>i < length ds.
        (ds' ! i)\<lparr> report := None \<rparr> = (ds ! i)\<lparr> report := None \<rparr> \<and>
        (reportFailed (reports i) \<longrightarrow> report (ds' ! i) = None) \<and>
        (\<forall>xmlDoc. reports i = ReportResponse True (Some xmlDoc) \<longrightarrow>
           report (ds' ! i) = parseTestReport xmlDoc) \<and>
        (\<forall>reports2. reports2 i = reports i \<longrightarrow>
           (\<exists>ds2. fst (loadDevices m (InventoryResponse True (Some ds)) reports2) = Inr ds2 \<and>
                  ds2 ! i = ds' ! i)))"
proof -
  define ds' where "ds' = map (\<lambda>(i, d). loadReport (reports i) d) (enumerate 0 ds)"
  have res: "res = Inr ds'" and m': "devicesData m' = ds'"
    using assms by (auto simp: loadDevices_ok ds'_def filterDevices_def)
  have len: "length ds' = length ds" by (simp add: ds'_def)
  have each: "(ds' ! i)\<lparr> report := None \<rparr> = (ds ! i)\<lparr> report := None \<rparr> \<and>
        (reportFailed (reports i) \<longrightarrow> report (ds' ! i) = None) \<and>
        (\<forall>xmlDoc. reports i = ReportResponse True (Some xmlDoc) \<longrightarrow>
           report (ds' ! i) = parseTestReport xmlDoc) \<and>
        (\<forall>reports2. reports2 i = reports i \<longrightarrow>
           (\<exists>ds2. fst (loadDevices m (InventoryResponse True (Some ds)) reports2) = Inr ds2 \<and>
                  ds2 ! i = ds' ! i))"
    if i: "i < length ds" for i
  proof -
    have n: "ds' ! i = loadReport (reports i) (ds ! i)"
      unfolding ds'_def using i by (rule loaded_nth)
    have 1: "(ds' ! i)\<lparr> report := None \<rparr> = (ds ! i)\<lparr> report := None \<rparr>"
      unfolding n by (rule loadReport_cases(3))
    have 2: "reportFailed (reports i) \<longrightarrow> report (ds' ! i) = None"
      by (simp add: n loadReport_cases(1))
    have 3: "\<forall>xmlDoc. reports i = ReportResponse True (Some xmlDoc) \<longrightarrow>
           report (ds' ! i) = parseTestReport xmlDoc"
      by (simp add: n loadReport_cases(2))
    have 4: "\<exists>ds2. fst (loadDevices m (InventoryResponse True (Some ds)) reports2) = Inr ds2 \<and>
                  ds2 ! i = ds' ! i" if "reports2 i = reports i" for reports2
    proof -
      have "map (\<lambda>(j, d). loadReport (reports2 j) d) (enumerate 0 ds) ! i =
          loadReport (reports2 i) (ds ! i)"
        using i by (rule loaded_nth)
      then show ?thesis using that n by (simp add: loadDevices_ok del: nth_map)
    qed
    show ?thesis using 1 2 3 4 by blast
  qed
  show ?thesis using res m' len each by blast
qed

text \<open>
  The theorem at three devices: the first report is fetched, the second is answered with
  an error status, the third fetch is rejected.
\<close>

theorem load_devices_isolates_failures_witness:
  "reportFailed (reports_example 1) \<and> reportFailed (reports_example 2) \<and>
   (\<exists>ds'. fst (loadDevices manager_example (InventoryResponse True (Some [device_c, device_a, device_b]))
                 reports_example) = Inr ds' \<and>
          length ds' = 3 \<and>
          map device ds' = [''mt7621-2'', ''AR71xx-1'', ''x86-lab''] \<and>
          map_option passed (report (ds' ! 0)) = Some (Num 2) \<and>
          report (ds' ! 1) = None \<and> report (ds' ! 2) = None)"
proof -
  have f: "reportFailed (reports_example 1)" "reportFailed (reports_example 2)"
    by (simp_all add: reports_example_def reportFailed_def)
  obtain res m' where l: "loadDevices manager_example
      (InventoryResponse True (Some [device_c, device_a, device_b])) reports_example = (res, m')"
    by (cases "loadDevices manager_example
      (InventoryResponse True (Some [device_c, device_a, device_b])) reports_example") blast
  from load_devices_isolates_failures[OF l] obtain ds' where
    r: "res = Inr ds'" and len: "length ds' = length [device_c, device_a, device_b]"
    and each: "\<forall>i < length [device_c, device_a, device_b].
        (ds' ! i)\<lparr> report := None \<rparr> = ([device_c, device_a, device_b] ! i)\<lparr> report := None \<rparr> \<and>
        (reportFailed (reports_example i) \<longrightarrow> report (ds' ! i) = None) \<and>
        (\<forall>xmlDoc. reports_example i = ReportResponse True (Some xmlDoc) \<longrightarrow>
           report (ds' ! i) = parseTestReport xmlDoc)"
    by blast
  have p: "map_option passed (parseTestReport doc_scenario) = Some (Num 2)"
    by (simp add: parseTestReport_def doc_scenario_def querySelector_def querySelectorAll_def
        descendants_def Let_def suite_scenario_def orDefault_def parseInt_def
        trimStart_def isWhiteSpace_def isDigit_def radixValue_def digitValue_def toNumber_exact)
  have e0: "(ds' ! 0)\<lparr> report := None \<rparr> = device_c\<lparr> report := None \<rparr>"
    "report (ds' ! 0) = parseTestReport doc_scenario"
    using each[rule_format, of 0] by (simp_all add: reports_example_def)
  have e1: "(ds' ! 1)\<lparr> report := None \<rparr> = device_a\<lparr> report := None \<rparr>" "report (ds' ! 1) = None"
    using each[rule_format, of 1] f by simp_all
  have e2: "(ds' ! 2)\<lparr> report := None \<rparr> = device_b\<lparr> report := None \<rparr>" "report (ds' ! 2) = None"
    using each[rule_format, of 2] f by simp_all
  have "device ((ds' ! 0)\<lparr> report := None \<rparr>) = ''mt7621-2''"
    "device ((ds' ! 1)\<lparr> report := None \<rparr>) = ''AR71xx-1''"
    "device ((ds' ! 2)\<lparr> report := None \<rparr>) = ''x86-lab''"
    unfolding e0(1) e1(1) e2(1) by (simp_all add: device_a_def device_b_def device_c_def)
  then have d: "device (ds' ! 0) = ''mt7621-2''" "device (ds' ! 1) = ''AR71xx-1''"
    "device (ds' ! 2) = ''x86-lab''"
    by simp_all
  obtain x y z where xyz: "ds' = [x, y, z]"
    using len by (cases ds'; cases "tl ds'"; cases "tl (tl ds')") auto
  have "map device ds' = [''mt7621-2'', ''AR71xx-1'', ''x86-lab'']"
    using d xyz by simp
  then show ?thesis using f l r len e0(2) e1(2) e2(2) p by simp
qed

text \<open>
  C5, as the code has it. For every device list the statistics are: \<open>total\<close> the length
  of the list, \<open>online\<close> the number of devices whose status is \<open>online\<close>, and
  \<open>totalTests\<close>, \<open>passed\<close>, \<open>failed\<close>, \<open>skipped\<close> the Number sums, added from left to
  right, of \<open>tests\<close>, \<open>passed\<close>, \<open>failures + errors\<close> and \<open>skipped\<close> over the reports
  of the devices that have one (a device without report adds nothing to them but counts
  in \<open>total\<close> and \<open>online\<close>). Each of them is the exact integer sum when the summed
  values are integers whose magnitudes add up to at most \<open>2^53\<close>. On the empty list every
  field is 0.
\<close>

theorem aggregate_stats:
  "s_total (updateStats m) = length (devicesData m) \<and>
   s_online (updateStats m) =
     card {i. i < length (devicesData m) \<and> status (devicesData m ! i) = Some ''online''} \<and>
   s_totalTests (updateStats m) = js_sum (map tests (reportsOf (devicesData m))) \<and>
   s_passed (updateStats m) = js_sum (map passed (reportsOf (devicesData m))) \<and>
   s_failed (updateStats m) =
     js_sum (map (\<lambda>r. js_add (failures r) (errors r)) (reportsOf (devicesData m))) \<and>
   s_skipped (updateStats m) = js_sum (map skipped (reportsOf (devicesData m))) \<and>
   (\<forall>ts. map tests (reportsOf (devicesData m)) = map Num ts \<and>
         sum_list (map abs ts) \<le> 2 ^ 53 \<longrightarrow>
         s_totalTests (updateStats m) = Num (sum_list ts)) \<and>
   (\<forall>ps. map passed (reportsOf (devicesData m)) = map Num ps \<and>
         sum_list (map abs ps) \<le> 2 ^ 53 \<longrightarrow>
         s_passed (updateStats m) = Num (sum_list ps)) \<and>
   (\<forall>fs es. map failures (reportsOf (devicesData m)) = map Num fs \<and>
         map errors (reportsOf (devicesData m)) = map Num es \<and>
         sum_list (map abs fs) + sum_list (map abs es) \<le> 2 ^ 53 \<longrightarrow>
         s_failed (updateStats m) = Num (sum_list fs + sum_list es)) \<and>
   (\<forall>ss. map skipped (reportsOf (devicesData m)) = map Num ss \<and>
         sum_list (map abs ss) \<le> 2 ^ 53 \<longrightarrow>
         s_skipped (updateStats m) = Num (sum_list ss)) \<and>
   updateStats (m\<lparr> devicesData := [] \<rparr>) =
     \<lparr> s_total = 0, s_online = 0, s_totalTests = Num 0, s_passed = Num 0,
       s_failed = Num 0, s_skipped = Num 0 \<rparr>"
proof -
  let ?rs = "reportsOf (devicesData m)"
  have online: "length (filter (\<lambda>d. status d = Some ''online'') (devicesData m)) =
      card {i. i < length (devicesData m) \<and> status (devicesData m ! i) = Some ''online''}"
    by (rule length_filter_conv_card)
  have sums: "s_totalTests (updateStats m) = js_sum (map tests ?rs)"
    "s_passed (updateStats m) = js_sum (map passed ?rs)"
    "s_failed (updateStats m) = js_sum (map (\<lambda>r. js_add (failures r) (errors r)) ?rs)"
    "s_skipped (updateStats m) = js_sum (map skipped ?rs)"
    by (simp_all add: updateStats_def Let_def updateStats_fold js_sum_def)
  have e1: "\<forall>ts. map tests ?rs = map Num ts \<and> sum_list (map abs ts) \<le> 2 ^ 53 \<longrightarrow>
         s_totalTests (updateStats m) = Num (sum_list ts)"
    by (simp add: sums js_sum_exact)
  have e2: "\<forall>ps. map passed ?rs = map Num ps \<and> sum_list (map abs ps) \<le> 2 ^ 53 \<longrightarrow>
         s_passed (updateStats m) = Num (sum_list ps)"
    by (simp add: sums js_sum_exact)
  have e4: "\<forall>ss. map skipped ?rs = map Num ss \<and> sum_list (map abs ss) \<le> 2 ^ 53 \<longrightarrow>
         s_skipped (updateStats m) = Num (sum_list ss)"
    by (simp add: sums js_sum_exact)
  have e3: "\<forall>fs es. map failures ?rs = map Num fs \<and> map errors ?rs = map Num es \<and>
         sum_list (map abs fs) + sum_list (map abs es) \<le> 2 ^ 53 \<longrightarrow>
         s_failed (updateStats m) = Num (sum_list fs + sum_list es)"
  proof (intro allI impI)
    fix fs es
    assume a: "map failures ?rs = map Num fs \<and> map errors ?rs = map Num es \<and>
         sum_list (map abs fs) + sum_list (map abs es) \<le> 2 ^ 53"
    then obtain gs where gs: "map (\<lambda>r. js_add (failures r) (errors r)) ?rs = map Num gs"
      "sum_list gs = sum_list fs + sum_list es"
      "sum_list (map abs gs) \<le> sum_list (map abs fs) + sum_list (map abs es)"
      using failed_values[of ?rs fs es] by blast
    have "sum_list (map abs gs) \<le> 2 ^ 53" using gs(3) a by linarith
    then show "s_failed (updateStats m) = Num (sum_list fs + sum_list es)"
      using js_sum_exact[of gs] gs(1,2) sums(3) by simp
  qed
  have total: "s_total (updateStats m) = length (devicesData m)"
    and on: "s_online (updateStats m) =
      card {i. i < length (devicesData m) \<and> status (devicesData m ! i) = Some ''online''}"
    using online by (simp_all add: updateStats_def Let_def updateStats_fold)
  have empty: "updateStats (m\<lparr> devicesData := [] \<rparr>) =
     \<lparr> s_total = 0, s_online = 0, s_totalTests = Num 0, s_passed = Num 0,
       s_failed = Num 0, s_skipped = Num 0 \<rparr>"
    by (simp add: updateStats_def)
  show ?thesis
    by (intro conjI total on sums e1 e2 e3 e4 empty)
qed

text \<open>The theorem at three devices, the second without report.\<close>

theorem aggregate_stats_witness:
  "map tests (reportsOf (devicesData manager_example)) = map Num [3, 4] \<and>
   map passed (reportsOf (devicesData manager_example)) = map Num [2, 3] \<and>
   map failures (reportsOf (devicesData manager_example)) = map Num [1, 0] \<and>
   map errors (reportsOf (devicesData manager_example)) = map Num [0, 0] \<and>
   map skipped (reportsOf (devicesData manager_example)) = map Num [0, 1] \<and>
   card {i. i < length (devicesData manager_example) \<and>
            status (devicesData manager_example ! i) = Some ''online''} = 2 \<and>
   updateStats manager_example =
     \<lparr> s_total = 3, s_online = 2, s_totalTests = Num 7, s_passed = Num 5,
       s_failed = Num 1, s_skipped = Num 1 \<rparr>"
proof -
  have r: "reportsOf (devicesData manager_example) = [report_example, report_clean]"
    by (simp add: manager_example_def reportsOf_def device_a_def device_b_def device_c_def)
  have m: "map tests (reportsOf (devicesData manager_example)) = map Num [3, 4]"
    "map passed (reportsOf (devicesData manager_example)) = map Num [2, 3]"
    "map failures (reportsOf (devicesData manager_example)) = map Num [1, 0]"
    "map errors (reportsOf (devicesData manager_example)) = map Num [0, 0]"
    "map skipped (reportsOf (devicesData manager_example)) = map Num [0, 1]"
    by (simp_all add: r report_example_def report_clean_def)
  note a = aggregate_stats[of manager_example]
  have b: "sum_list (map abs [3, 4 :: int]) \<le> 2 ^ 53" "sum_list (map abs [2, 3 :: int]) \<le> 2 ^ 53"
    "sum_list (map abs [1, 0 :: int]) + sum_list (map abs [0, 0 :: int]) \<le> 2 ^ 53"
    "sum_list (map abs [0, 1 :: int]) \<le> 2 ^ 53"
    by simp_all
  have n1: "s_totalTests (updateStats manager_example) = Num (sum_list [3, 4])"
    using a m(1) b(1) by blast
  have n2: "s_passed (updateStats manager_example) = Num (sum_list [2, 3])"
    using a m(2) b(2) by blast
  have n3: "s_failed (updateStats manager_example) = Num (sum_list [1, 0] + sum_list [0, 0])"
    using a m(3,4) b(3) by blast
  have n4: "s_skipped (updateStats manager_example) = Num (sum_list [0, 1])"
    using a m(5) b(4) by blast
  have t: "s_total (updateStats manager_example) = 3"
    using a by (simp add: manager_example_def)
  have "length (filter (\<lambda>d. status d = Some ''online'') (devicesData manager_example)) = 2"
    by (simp add: manager_example_def device_a_def device_b_def device_c_def)
  then have c: "card {i. i < length (devicesData manager_example) \<and>
            status (devicesData manager_example ! i) = Some ''online''} = 2"
    by (simp add: length_filter_conv_card)
  then have o: "s_online (updateStats manager_example) = 2"
    using a by simp
  have "updateStats manager_example =
     \<lparr> s_total = s_total (updateStats manager_example),
       s_online = s_online (updateStats manager_example),
       s_totalTests = s_totalTests (updateStats manager_example),
       s_passed = s_passed (updateStats manager_example),
       s_failed = s_failed (updateStats manager_example),
       s_skipped = s_skipped (updateStats manager_example) \<rparr>"
    by simp
  then show ?thesis using m c t o n1 n2 n3 n4 by simp
qed

text \<open>
  C5 as stated fails beyond \<open>2^53\<close>: for two reports with 9007199254740992 tests and 1
  test, \<open>totalTests\<close> is 9007199254740992, and the sum is 9007199254740993.
\<close>

theorem aggregate_sum_counterexample:
  "map tests (reportsOf (devicesData manager_large)) = [Num 9007199254740992, Num 1] \<and>
   sum_list [9007199254740992, 1] = (9007199254740993 :: int) \<and>
   s_totalTests (updateStats manager_large) = Num 9007199254740992"
proof -
  have t: "toNumber 9007199254740992 = Num 9007199254740992"
    by (simp add: toNumber_exact)
  show ?thesis
    by (simp add: manager_large_def reportsOf_def report_large_def report_one_def
        updateStats_def Let_def t toNumber_round_tie)
qed

text \<open>
  C6. The filtered list holds exactly the devices that match the search term (the
  identifier or the name contains it, ignoring case; the empty term matches every device)
  and the filter type (\<open>all\<close>: no condition; \<open>failed\<close>: a report with
  \<open>failures > 0\<close> or \<open>errors > 0\<close>, so never a device without report), in the order of
  the device list.
\<close>

theorem filter_devices_exact:
  "filteredDevices (filterDevices m search ftype) =
     filter (\<lambda>d. matchesTerm d search \<and> matchesType d ftype) (devicesData m) \<and>
   subseq (filteredDevices (filterDevices m search ftype)) (devicesData m) \<and>
   set (filteredDevices (filterDevices m search ftype)) =
     {d \<in> set (devicesData m). matchesTerm d search \<and> matchesType d ftype} \<and>
   (\<forall>d. matchesTerm d []) \<and>
   (\<forall>d. matchesType d ''all'') \<and>
   (\<forall>d. report d = None \<longrightarrow> \<not> matchesType d ''failed'')"
proof -
  have "\<forall>d. matchesTerm d []"
    by (simp add: matchesTerm_def containsIgnoringCase_def toLowerCase_def)
  moreover have "\<forall>d. matchesType d ''all''" by (simp add: matchesType_def)
  moreover have "\<forall>d. report d = None \<longrightarrow> \<not> matchesType d ''failed''"
    by (simp add: matchesType_def)
  ultimately show ?thesis
    by (simp add: filteredDevices_filterDevices)
qed

text \<open>The theorem at the three example devices.\<close>

theorem filter_devices_exact_witness:
  "report device_b = None \<and> \<not> matchesType device_b ''failed'' \<and>
   filteredDevices (filterDevices manager_example ''ROUTER'' ''all'') = [device_a, device_c] \<and>
   filteredDevices (filterDevices manager_example [] ''failed'') = [device_a]"
proof -
  have b: "report device_b = None" by (simp add: device_b_def)
  have nb: "\<not> matchesType device_b ''failed''"
    using filter_devices_exact[of manager_example "[]" "''failed''"] b by blast
  have l: "toLowerCase ''ROUTER'' = ''router''" "toLowerCase ''AR71xx-1'' = ''ar71xx-1''"
    "toLowerCase ''name:Router One'' = ''name:router one''" "toLowerCase ''x86-lab'' = ''x86-lab''"
    "toLowerCase ''mt7621-2'' = ''mt7621-2''" "toLowerCase ''Lab Router'' = ''lab router''"
    by code_simp+
  have s: "sublist ''router'' ''name:router one''" "\<not> sublist ''router'' ''ar71xx-1''"
    "\<not> sublist ''router'' ''x86-lab''" "\<not> sublist ''router'' ''mt7621-2''"
    "sublist ''router'' ''lab router''"
    by code_simp+
  have t: "matchesTerm device_a ''ROUTER''" "\<not> matchesTerm device_b ''ROUTER''"
    "matchesTerm device_c ''ROUTER''"
    using l s by (simp_all add: matchesTerm_def containsIgnoringCase_def device_a_def
        device_b_def device_c_def)
  have f: "matchesType device_a ''failed''" "\<not> matchesType device_c ''failed''"
    by (simp_all add: matchesType_def device_a_def device_c_def report_example_def
        report_clean_def)
  have e: "matchesTerm d []" "matchesType d ''all''" for d
    using filter_devices_exact[of manager_example "[]" "''all''"] by blast+
  have 1: "filteredDevices (filterDevices manager_example ''ROUTER'' ''all'') = [device_a, device_c]"
    using filter_devices_exact[of manager_example "''ROUTER''" "''all''"] t e
    by (simp add: manager_example_def)
  have 2: "filteredDevices (filterDevices manager_example [] ''failed'') = [device_a]"
    using filter_devices_exact[of manager_example "[]" "''failed''"] f nb e
    by (simp add: manager_example_def)
  show ?thesis using b nb 1 2 by simp
qed

text \<open>
  C7. The report holds one test case per \<open>testcase\<close> element of the document, in document
  order, and the status of each is \<open>failed\<close> if its element holds a \<open>failure\<close> element,
  otherwise \<open>error\<close> if it holds an \<open>error\<close> element, otherwise \<open>skipped\<close> if it holds a
  \<open>skipped\<close> element, otherwise \<open>passed\<close>; this also decides a test case with several
  markers.
\<close>

theorem status_precedence:
  assumes "parseTestReport xmlDoc = Some r"
  shows "map tc_status (testcases r) = map statusOf (testcaseElements xmlDoc)"
  using testcases_parsed[OF assms] by (simp add: status_parseTestCase)

text \<open>
  The theorem at a document of two test cases: the first holds all three markers,
  \<open>skipped\<close> first, and is \<open>failed\<close>; the second is \<open>skipped\<close>.
\<close>

theorem status_precedence_witness:
  "hasElement (childNodes testcase_all_markers) ''failure'' \<and>
   hasElement (childNodes testcase_all_markers) ''error'' \<and>
   hasElement (childNodes testcase_all_markers) ''skipped'' \<and>
   testcaseElements doc_markers = [testcase_all_markers, testcase_skipped_text] \<and>
   (\<exists>r. parseTestReport doc_markers = Some r \<and>
        map tc_status (testcases r) = [''failed'', ''skipped''])"
proof -
  have h: "hasElement (childNodes testcase_all_markers) ''failure''"
    "hasElement (childNodes testcase_all_markers) ''error''"
    "hasElement (childNodes testcase_all_markers) ''skipped''"
    by (simp_all add: testcase_all_markers_def hasElement_def descendants_def)
  have n: "\<not> hasElement (childNodes testcase_skipped_text) ''failure''"
    "\<not> hasElement (childNodes testcase_skipped_text) ''error''"
    "hasElement (childNodes testcase_skipped_text) ''skipped''"
    by (simp_all add: testcase_skipped_text_def hasElement_def descendants_def)
  obtain r where r: "parseTestReport doc_markers = Some r"
    using doc_markers_parsed by blast
  have "map tc_status (testcases r) = [''failed'', ''skipped'']"
    using status_precedence[OF r] h n by (simp add: doc_markers_elements statusOf_def)
  then show ?thesis using h r doc_markers_elements by simp
qed

text \<open>
  C8, as the code has it. The \<open>firmware_version\<close> of a report is the \<open>value\<close> attribute of
  the last \<open>property\<close> element named \<open>firmware_version\<close> in document order (every match
  assigns the field again); the field is absent when there is no such property.
\<close>

theorem firmware_version_last:
  assumes "parseTestReport xmlDoc = Some r"
  shows "firmware_version r =
     (case filter isFirmwareProperty (descendants xmlDoc) of
        [] \<Rightarrow> None
      | p # ps \<Rightarrow> Some (getAttribute (last (p # ps)) ''value''))"
proof -
  from assms obtain ts where "querySelector xmlDoc ''testsuite'' = Some ts"
    by (auto simp: parseTestReport_def split: option.splits)
  from parseTestReport_Some[OF this] assms
  have "firmware_version r = findFirmwareVersion (querySelectorAll xmlDoc ''property'')"
    by auto
  then show ?thesis
    by (simp add: findFirmwareVersion_def findFirmwareVersion_step filter_firmware)
qed

text \<open>The theorem at a document with two such properties, \<open>v1\<close> then \<open>v2\<close>.\<close>

theorem firmware_version_last_witness:
  "\<exists>r. parseTestReport doc_two_firmware = Some r \<and> firmware_version r = Some (Some ''v2'')"
proof -
  obtain r where r: "parseTestReport doc_two_firmware = Some r"
    by (simp add: parseTestReport_def doc_two_firmware_def querySelector_def querySelectorAll_def
        descendants_def Let_def)
  have "filter isFirmwareProperty (descendants doc_two_firmware) =
      [Element ''property'' [(''name'', ''firmware_version''), (''value'', ''v1'')] [],
       Element ''property'' [(''name'', ''firmware_version''), (''value'', ''v2'')] []]"
    by (simp add: doc_two_firmware_def descendants_def isFirmwareProperty_def)
  then have "firmware_version r = Some (Some ''v2'')"
    using firmware_version_last[OF r] by simp
  then show ?thesis using r by blast
qed

text \<open>
  C8 as stated fails: the first \<open>firmware_version\<close> property of the document has the value
  \<open>v1\<close>, the parsed report has \<open>v2\<close>.
\<close>

theorem firmware_version_first_counterexample:
  "map_option (\<lambda>e. getAttribute e ''value'')
      (List.find isFirmwareProperty (descendants doc_two_firmware)) = Some (Some ''v1'') \<and>
   map_option firmware_version (parseTestReport doc_two_firmware) = Some (Some (Some ''v2''))"
  by (simp add: doc_two_firmware_def descendants_def isFirmwareProperty_def parseTestReport_def
      querySelector_def querySelectorAll_def Let_def findFirmwareVersion_def)

text \<open>
  C9, as the code has it. For each \<open>testcase\<close> element of the document, the parsed test
  case at the same position has the \<open>message\<close> attribute of the matched marker as message.
  For a \<open>failure\<close> or \<open>error\<close> marker its details are the marker's text content, trimmed,
  when the trimmed text is not empty, and are omitted when the text content is empty; for
  a \<open>skipped\<close> marker they are always omitted. A test case without marker has neither
  message nor details.
\<close>

theorem marker_message_details:
  assumes "parseTestReport xmlDoc = Some r"
  shows "list_all2 markerFields (testcaseElements xmlDoc) (testcases r)"
  unfolding testcases_parsed[OF assms]
  by (rule list_all2_map_right) (rule markerFields_parseTestCase)

text \<open>
  The theorem at the document of two test cases: the failure of the first gives message
  and details, the skipped marker of the second only a message.
\<close>

theorem marker_message_details_witness:
  "testcaseElements doc_markers = [testcase_all_markers, testcase_skipped_text] \<and>
   matchedMarker testcase_all_markers =
     Some (Element ''failure'' [(''message'', ''f'')] [Text '' F '']) \<and>
   matchedMarker testcase_skipped_text =
     Some (Element ''skipped'' [(''message'', ''m'')] [Text ''reason'']) \<and>
   (\<exists>r. parseTestReport doc_markers = Some r \<and>
        map tc_message (testcases r) = [Some (Some ''f''), Some (Some ''m'')] \<and>
        map tc_details (testcases r) = [Some ''F'', None])"
proof -
  have m1: "matchedMarker testcase_all_markers =
      Some (Element ''failure'' [(''message'', ''f'')] [Text '' F ''])"
    by (simp add: matchedMarker_def testcase_all_markers_def querySelector_def
        querySelectorAll_def descendants_def)
  have m2: "matchedMarker testcase_skipped_text =
      Some (Element ''skipped'' [(''message'', ''m'')] [Text ''reason''])"
    by (simp add: matchedMarker_def testcase_skipped_text_def querySelector_def
        querySelectorAll_def descendants_def)
  have t: "trim '' F '' = ''F''"
    by (simp add: trim_def isWhiteSpace_def)
  obtain r where r: "parseTestReport doc_markers = Some r"
    using doc_markers_parsed by blast
  from marker_message_details[OF r]
  have "list_all2 markerFields [testcase_all_markers, testcase_skipped_text] (testcases r)"
    by (simp add: doc_markers_elements)
  then obtain x y where xy: "testcases r = [x, y]"
    and fx: "markerFields testcase_all_markers x"
    and fy: "markerFields testcase_skipped_text y"
    by (auto simp: list_all2_Cons1)
  have x: "tc_message x = Some (Some ''f'')" "tc_details x = Some ''F''"
    using fx by (simp_all add: markerFields_def m1 t)
  have y: "tc_message y = Some (Some ''m'')" "tc_details y = None"
    using fy by (simp_all add: markerFields_def m2)
  show ?thesis using m1 m2 r xy x y doc_markers_elements by simp
qed

text \<open>
  C9 as stated fails: the second test case is matched by a \<open>skipped\<close> marker whose text
  content, trimmed, is \<open>reason\<close>, and the parsed test case has no details.
\<close>

theorem details_counterexample:
  "testcaseElements doc_markers = [testcase_all_markers, testcase_skipped_text] \<and>
   matchedMarker testcase_skipped_text =
     Some (Element ''skipped'' [(''message'', ''m'')] [Text ''reason'']) \<and>
   trim (textContent (Element ''skipped'' [(''message'', ''m'')] [Text ''reason''])) = ''reason'' \<and>
   map_option (map tc_details) (map_option testcases (parseTestReport doc_markers)) =
     Some [Some ''F'', None]"
proof -
  have "map_option (map tc_details) (map_option testcases (parseTestReport doc_markers)) =
     Some [Some ''F'', None]"
    by (simp add: testcase_skipped_text_def testcase_all_markers_def doc_markers_def
        querySelector_def querySelectorAll_def descendants_def parseTestReport_def
        parseTestCase_def Let_def trim_def isWhiteSpace_def)
  moreover have "matchedMarker testcase_skipped_text =
     Some (Element ''skipped'' [(''message'', ''m'')] [Text ''reason''])"
    by (simp add: matchedMarker_def testcase_skipped_text_def querySelector_def
        querySelectorAll_def descendants_def)
  moreover have "trim (textContent (Element ''skipped'' [(''message'', ''m'')] [Text ''reason''])) =
      ''reason''"
    by (simp add: trim_def isWhiteSpace_def)
  ultimately show ?thesis using doc_markers_elements by simp
qed

text \<open>
  C10. A device without name is in the filtered list exactly when it is in the device
  list, its identifier contains the search term, ignoring case, and it matches the filter
  type.
\<close>

theorem filter_without_name:
  assumes "name d = None"
  shows "d \<in> set (filteredDevices (filterDevices m search ftype)) \<longleftrightarrow>
     d \<in> set (devicesData m) \<and> containsIgnoringCase (device d) search \<and> matchesType d ftype"
  using assms by (auto simp: filteredDevices_filterDevices matchesTerm_def)

text \<open>The theorem at the example device without name.\<close>

theorem filter_without_name_witness:
  "name device_b = None \<and>
   device_b \<in> set (filteredDevices (filterDevices manager_example ''LAB'' ''all'')) \<and>
   device_b \<notin> set (filteredDevices (filterDevices manager_example ''router'' ''all''))"
proof -
  have n: "name device_b = None" by (simp add: device_b_def)
  have m: "device_b \<in> set (devicesData manager_example)" by (simp add: manager_example_def)
  have l: "toLowerCase ''LAB'' = ''lab''" "toLowerCase ''router'' = ''router''"
    "toLowerCase ''x86-lab'' = ''x86-lab''"
    by code_simp+
  have s: "sublist ''lab'' ''x86-lab''" "\<not> sublist ''router'' ''x86-lab''"
    by code_simp+
  have c: "containsIgnoringCase (device device_b) ''LAB''"
    "\<not> containsIgnoringCase (device device_b) ''router''"
    using l s by (simp_all add: containsIgnoringCase_def device_b_def)
  have a: "matchesType device_b ''all''" by (simp add: matchesType_def)
  show ?thesis
    using filter_without_name[OF n, of manager_example "''LAB''" "''all''"]
      filter_without_name[OF n, of manager_example "''router''" "''all''"] n m c a
    by simp
qed

end
